theory Spec2Isabelle
  imports Main "HOL-Library.Sublist"
begin

section \<open>Python values used by app.py\<close>

text \<open>
  A Python string is the list of its code points, each a natural number. A string
  literal of the source is written \<open>lit\<close> of the same characters.
\<close>

type_synonym pystr = "nat list"

abbreviation lit :: "string \<Rightarrow> pystr" where
  "lit s \<equiv> map of_char s"

datatype py_error = IndexError | KeyError | ValueError

definition is_ascii :: "nat \<Rightarrow> bool" where
  "is_ascii c = (c < 128)"

definition is_upper :: "nat \<Rightarrow> bool" where
  "is_upper c = (65 \<le> c \<and> c \<le> 90)"

definition is_lower :: "nat \<Rightarrow> bool" where
  "is_lower c = (97 \<le> c \<and> c \<le> 122)"

definition lower_char :: "nat \<Rightarrow> nat" where
  "lower_char c = (if is_upper c then c + 32 else c)"

definition upper_char :: "nat \<Rightarrow> nat" where
  "upper_char c = (if is_lower c then c - 32 else c)"

text \<open>
  \<open>str.title()\<close> on a string of ASCII characters: a letter that follows a character
  that is not a letter (or starts the string) is put in upper case, a letter that follows
  a letter in lower case. The flag says whether the previous character was a letter.
\<close>

fun title_from :: "bool \<Rightarrow> pystr \<Rightarrow> pystr" where
  "title_from prev [] = []"
| "title_from prev (c # cs) =
     (if is_lower c then (if prev then c else upper_char c) # title_from True cs
      else if is_upper c then (if prev then lower_char c else c) # title_from True cs
      else c # title_from False cs)"

text \<open>
  The case conversions of the Python runtime on the strings that are not pure ASCII.
  They follow the Unicode character database, which is not part of the repository, and
  are a parameter \<open>lib\<close> of the model: what is proved holds for every such table, the
  runtime's among them.
\<close>

record str_methods =
  lib_lower :: "pystr \<Rightarrow> pystr"
  lib_upper :: "pystr \<Rightarrow> pystr"
  lib_title :: "pystr \<Rightarrow> pystr"

text \<open>
  \<open>str.lower()\<close>, \<open>str.upper()\<close> and \<open>str.title()\<close>: on a pure ASCII string the
  conversion of the letters \<open>A-Z\<close> and \<open>a-z\<close>, on any other string the runtime's.
\<close>

definition py_lower :: "str_methods \<Rightarrow> pystr \<Rightarrow> pystr" where
  "py_lower lib s = (if list_all is_ascii s then map lower_char s else lib_lower lib s)"

definition py_upper :: "str_methods \<Rightarrow> pystr \<Rightarrow> pystr" where
  "py_upper lib s = (if list_all is_ascii s then map upper_char s else lib_upper lib s)"

definition py_title :: "str_methods \<Rightarrow> pystr \<Rightarrow> pystr" where
  "py_title lib s = (if list_all is_ascii s then title_from False s else lib_title lib s)"

text \<open>
  A table for the examples. They use pure ASCII strings, on which no table is consulted,
  so it makes no difference which one it is.
\<close>

definition no_table :: str_methods where
  "no_table = \<lparr>lib_lower = (\<lambda>s. s), lib_upper = (\<lambda>s. s), lib_title = (\<lambda>s. s)\<rparr>"

text \<open>
  \<open>str.isspace()\<close> on one character: tab to carriage return, the four separators 28 to
  31, space, NEL, the no-break space and the space characters above them.
\<close>

definition py_isspace :: "nat \<Rightarrow> bool" where
  "py_isspace c =
     ((9 \<le> c \<and> c \<le> 13) \<or> (28 \<le> c \<and> c \<le> 32) \<or> c = 133 \<or> c = 160 \<or> c = 5760 \<or>
      (8192 \<le> c \<and> c \<le> 8202) \<or> c = 8232 \<or> c = 8233 \<or> c = 8239 \<or> c = 8287 \<or>
      c = 12288)"

text \<open>\<open>str.strip()\<close>.\<close>

definition py_strip :: "pystr \<Rightarrow> pystr" where
  "py_strip s = rev (dropWhile py_isspace (rev (dropWhile py_isspace s)))"

text \<open>\<open>sep in s\<close> for strings: \<open>sep\<close> occurs in \<open>s\<close> as a contiguous block.\<close>

fun py_contains :: "pystr \<Rightarrow> pystr \<Rightarrow> bool" where
  "py_contains sep [] = (sep = [])"
| "py_contains sep (c # cs) = (prefix sep (c # cs) \<or> py_contains sep cs)"

text \<open>
  \<open>s.split(sep, 1)\<close> for a non-empty \<open>sep\<close> (every separator in app.py is a non-empty
  literal): the string itself when \<open>sep\<close> does not occur, otherwise the parts before
  and after its leftmost occurrence.
\<close>

fun py_split1 :: "pystr \<Rightarrow> pystr \<Rightarrow> pystr list" where
  "py_split1 sep [] = [[]]"
| "py_split1 sep (c # cs) =
     (if prefix sep (c # cs) then [[], drop (length sep) (c # cs)]
      else (case py_split1 sep cs of
              [] \<Rightarrow> []
            | a # rest \<Rightarrow> (c # a) # rest))"

text \<open>\<open>a, b = xs\<close>: unpacking raises ValueError unless \<open>xs\<close> has exactly two elements.\<close>

definition unpack2 :: "'a list \<Rightarrow> py_error + ('a \<times> 'a)" where
  "unpack2 xs = (case xs of [a, b] \<Rightarrow> Inr (a, b) | _ \<Rightarrow> Inl ValueError)"

section \<open>Formatter\<close>

definition apply_case :: "str_methods \<Rightarrow> pystr \<Rightarrow> pystr \<Rightarrow> pystr" where
  "apply_case lib s mode =
     (if mode = lit ''Title Case'' then py_title lib s
      else if mode = lit ''UPPER'' then py_upper lib s
      else if mode = lit ''lower'' then py_lower lib s
      else s)"

definition join_name :: "pystr \<Rightarrow> pystr \<Rightarrow> pystr \<Rightarrow> pystr" where
  "join_name adj noun separator =
     (if separator = lit ''Space'' then adj @ lit '' '' @ noun
      else if separator = lit ''Hyphen'' then adj @ lit ''-'' @ noun
      else if separator = lit ''Underscore'' then adj @ lit ''_'' @ noun
      else if separator = lit ''of'' then adj @ lit '' of '' @ noun
      else adj @ lit '' '' @ noun)"

definition split_for_display :: "pystr \<Rightarrow> py_error + (pystr \<times> pystr)" where
  "split_for_display final_name =
     (if py_contains (lit '' of '') final_name then unpack2 (py_split1 (lit '' of '') final_name)
      else if py_contains (lit ''-'') final_name then unpack2 (py_split1 (lit ''-'') final_name)
      else if py_contains (lit ''_'') final_name then unpack2 (py_split1 (lit ''_'') final_name)
      else (let parts = py_split1 (lit '' '') final_name
            in case parts of
                 [] \<Rightarrow> Inl IndexError
               | p0 # rest \<Rightarrow> Inr (p0, if length parts > 1 then parts ! 1 else [])))"

text \<open>
  What "split once at the first occurrence of \<open>d\<close>" means: \<open>s\<close> is \<open>a\<close>, then \<open>d\<close>, then
  \<open>b\<close>, and \<open>d\<close> does not occur at any position left of that one.
\<close>

definition first_split :: "pystr \<Rightarrow> pystr \<Rightarrow> pystr \<Rightarrow> pystr \<Rightarrow> bool" where
  "first_split d s a b = (s = a @ d @ b \<and> \<not> sublist d (a @ butlast d))"

section \<open>TextNormalizer\<close>

text \<open>The delimiters of the pattern \<open>[\n,]+\<close>: line feed (10) and comma (44).\<close>

definition is_delim :: "nat \<Rightarrow> bool" where
  "is_delim c = (c = 10 \<or> c = 44)"

text \<open>
  \<open>re.split(r"[\n,]+", text)\<close>: the pieces between the maximal runs of delimiters. A
  run at the start or at the end of the text leaves an empty piece there, and the empty
  text is one empty piece.
\<close>

function re_split :: "pystr \<Rightarrow> pystr list" where
  "re_split [] = [[]]"
| "re_split (c # cs) =
     (if is_delim c then [] # re_split (dropWhile is_delim cs)
      else (case re_split cs of
              [] \<Rightarrow> [[c]]
            | p # ps \<Rightarrow> (c # p) # ps))"
  by pat_completeness auto
termination
  by (relation "measure length") (auto simp: less_Suc_eq_le length_dropWhile_le)

text \<open>
  The characters kept by \<open>re.sub(r"[^A-Za-z \-']", "", w)\<close>: the ASCII letters, the
  space (32), the hyphen (45) and the apostrophe (39).
\<close>

definition allowed_char :: "nat \<Rightarrow> bool" where
  "allowed_char c = (is_upper c \<or> is_lower c \<or> c = 32 \<or> c = 45 \<or> c = 39)"

definition re_sub :: "pystr \<Rightarrow> pystr" where
  "re_sub w = filter allowed_char w"

text \<open>The first loop of \<open>normalize_words\<close>, which fills \<open>words\<close> from \<open>raw\<close>.\<close>

fun collect_words :: "pystr list \<Rightarrow> pystr list" where
  "collect_words [] = []"
| "collect_words (w # raw) =
     (let w1 = py_strip w
      in if w1 = [] then collect_words raw
         else (let w2 = py_strip (re_sub w1)
               in if w2 \<noteq> [] then w2 # collect_words raw else collect_words raw))"

text \<open>The second loop, which fills \<open>out\<close> from \<open>words\<close> and carries the set \<open>seen\<close>.\<close>

fun dedupe :: "str_methods \<Rightarrow> pystr set \<Rightarrow> pystr list \<Rightarrow> pystr list" where
  "dedupe lib seen [] = []"
| "dedupe lib seen (w # ws) =
     (let key = py_lower lib w
      in if key \<notin> seen then w # dedupe lib (insert key seen) ws else dedupe lib seen ws)"

definition normalize_words :: "str_methods \<Rightarrow> pystr \<Rightarrow> pystr list" where
  "normalize_words lib text = dedupe lib {} (collect_words (re_split text))"

text \<open>\<open>sep.join(ws)\<close>.\<close>

fun py_join :: "pystr \<Rightarrow> pystr list \<Rightarrow> pystr" where
  "py_join sep [] = []"
| "py_join sep [w] = w"
| "py_join sep (w # ws) = w @ sep @ py_join sep ws"


section \<open>Dictionaries and the random source\<close>

text \<open>
  The word dictionaries are only read by key, so they are maps. \<open>tier_weights\<close> is also
  iterated, so it is the list of its items in insertion order; its keys are distinct, as
  the keys of a dictionary are.
\<close>

text \<open>\<open>d.get(k, default)\<close> and \<open>d[k]\<close>.\<close>

definition dict_get :: "('k \<rightharpoonup> 'v) \<Rightarrow> 'k \<Rightarrow> 'v \<Rightarrow> 'v" where
  "dict_get d k dflt = (case d k of None \<Rightarrow> dflt | Some v \<Rightarrow> v)"

definition dict_getitem :: "('k \<rightharpoonup> 'v) \<Rightarrow> 'k \<Rightarrow> py_error + 'v" where
  "dict_getitem d k = (case d k of None \<Rightarrow> Inl KeyError | Some v \<Rightarrow> Inr v)"

text \<open>
  A \<open>random.Random\<close> object is the sequence of the numbers it is going to draw. A
  function that uses it returns the source it leaves behind, also when it raises.
\<close>

type_synonym rng_state = "nat \<Rightarrow> nat"

definition rng_next :: "rng_state \<Rightarrow> nat \<times> rng_state" where
  "rng_next r = (r 0, \<lambda>n. r (Suc n))"

text \<open>
  The index \<open>bisect(cum_weights, x, 0, n - 1)\<close> of \<open>random.choices\<close>, on the weights
  themselves: the first position whose cumulative weight exceeds \<open>x\<close>, and the last
  position when there is none before it.
\<close>

fun weighted_index :: "int list \<Rightarrow> int \<Rightarrow> nat" where
  "weighted_index [] x = 0"
| "weighted_index [w] x = 0"
| "weighted_index (w # ws) x = (if x < w then 0 else Suc (weighted_index ws (x - w)))"

text \<open>
  \<open>rng.choices(population, weights=weights, k=1)[0]\<close>. The library draws the point
  \<open>random() * total\<close> in \<open>[0, total)\<close>; with integer weights only its integer part
  decides the index, and the model draws that integer.
\<close>

definition rng_choices :: "'a list \<Rightarrow> int list \<Rightarrow> rng_state \<Rightarrow> (py_error + 'a) \<times> rng_state" where
  "rng_choices population weights r =
     (if length weights \<noteq> length population then (Inl ValueError, r)
      else if weights = [] then (Inl IndexError, r)
      else (let total = sum_list weights
            in if total \<le> 0 then (Inl ValueError, r)
               else (case rng_next r of
                       (x, r') \<Rightarrow>
                         (Inr (population ! weighted_index weights (int x mod total)), r'))))"

text \<open>
  \<open>rng.choice(seq)\<close>: the index \<open>_randbelow(len(seq))\<close> is the next draw modulo the
  length, so that every index can come out.
\<close>

definition rng_choice :: "'a list \<Rightarrow> rng_state \<Rightarrow> (py_error + 'a) \<times> rng_state" where
  "rng_choice seq r =
     (if seq = [] then (Inl IndexError, r)
      else (case rng_next r of (x, r') \<Rightarrow> (Inr (seq ! (x mod length seq)), r')))"

section \<open>WeightedPicker\<close>

text \<open>\<open>[tier_weights[t] for t in available_tiers]\<close>.\<close>

fun weights_of :: "(pystr \<times> int) list \<Rightarrow> pystr list \<Rightarrow> py_error + int list" where
  "weights_of tw [] = Inr []"
| "weights_of tw (t # ts) =
     (case dict_getitem (map_of tw) t of
        Inl e \<Rightarrow> Inl e
      | Inr w \<Rightarrow> (case weights_of tw ts of Inl e \<Rightarrow> Inl e | Inr ws \<Rightarrow> Inr (w # ws)))"

text \<open>
  The local list \<open>available_tiers\<close>, and the function itself. Its parameters \<open>lists\<close>,
  \<open>tier_weights\<close> and \<open>rng\<close> are \<open>word_lists\<close>, \<open>tw\<close> and \<open>r\<close> here.
\<close>

definition available_tiers :: "(pystr \<rightharpoonup> pystr list) \<Rightarrow> (pystr \<times> int) list \<Rightarrow> pystr list" where
  "available_tiers word_lists tw =
     map fst (filter (\<lambda>(t, w). 0 < w \<and> 0 < length (dict_get word_lists t [])) tw)"

definition pick_word_from_tiers ::
  "(pystr \<rightharpoonup> pystr list) \<Rightarrow> (pystr \<times> int) list \<Rightarrow> rng_state \<Rightarrow>
     (py_error + (pystr \<times> pystr) option) \<times> rng_state" where
  "pick_word_from_tiers word_lists tw r =
     (if available_tiers word_lists tw = [] then (Inr None, r)
      else (case weights_of tw (available_tiers word_lists tw) of
              Inl e \<Rightarrow> (Inl e, r)
            | Inr weights \<Rightarrow>
                (case rng_choices (available_tiers word_lists tw) weights r of
                   (Inl e, r1) \<Rightarrow> (Inl e, r1)
                 | (Inr tier, r1) \<Rightarrow>
                     (case dict_getitem word_lists tier of
                        Inl e \<Rightarrow> (Inl e, r1)
                      | Inr ws \<Rightarrow>
                          (case rng_choice ws r1 of
                             (Inl e, r2) \<Rightarrow> (Inl e, r2)
                           | (Inr word, r2) \<Rightarrow> (Inr (Some (tier, word)), r2))))))"

section \<open>NameGenerator\<close>

text \<open>
  The five objects that \<open>generate_one_name\<close> receives by reference. Every step returns
  them as it leaves them; the other four arguments are immutable values.
\<close>

record objects =
  obj_adjectives :: "pystr \<rightharpoonup> pystr list"
  obj_nouns :: "pystr \<rightharpoonup> pystr list"
  obj_tier_weights :: "(pystr \<times> int) list"
  obj_used_names :: "pystr set"
  obj_rng :: rng_state

text \<open>The list \<open>enabled_nouns\<close> built by the first loop.\<close>

definition enabled_nouns :: "(pystr \<rightharpoonup> pystr list) \<Rightarrow> (pystr \<times> int) list \<Rightarrow> (pystr \<times> pystr) list" where
  "enabled_nouns nouns tw =
     concat (map (\<lambda>(t, w). if 0 < w then map (\<lambda>n. (t, n)) (dict_get nouns t []) else []) tw)"

text \<open>
  The second loop: \<open>nouns_by_letter.setdefault(n[0].lower(), []).append((t, n))\<close> for
  every pair with a non-empty noun.
\<close>

fun index_by_letter ::
  "str_methods \<Rightarrow> (pystr \<rightharpoonup> (pystr \<times> pystr) list) \<Rightarrow> (pystr \<times> pystr) list \<Rightarrow>
     (pystr \<rightharpoonup> (pystr \<times> pystr) list)" where
  "index_by_letter lib m [] = m"
| "index_by_letter lib m ((t, n) # rest) =
     (case n of
        [] \<Rightarrow> index_by_letter lib m rest
      | c # _ \<Rightarrow>
          (let k = py_lower lib [c]
           in index_by_letter lib (m(k \<mapsto> dict_get m k [] @ [(t, n)])) rest))"

text \<open>How one pass through the body of the \<open>while\<close> loop ends: \<open>continue\<close> or \<open>return\<close>.\<close>

datatype outcome = Retry | Return "(pystr \<times> pystr \<times> pystr) option"

text \<open>
  The end of the loop body, which both branches of \<open>if alliteration\<close> reach: format the
  name and check it against \<open>used_names\<close>.
\<close>

definition finish_name ::
  "str_methods \<Rightarrow> pystr \<Rightarrow> pystr \<Rightarrow> bool \<Rightarrow> pystr set \<Rightarrow> pystr \<Rightarrow> pystr \<Rightarrow> pystr \<Rightarrow> pystr \<Rightarrow> outcome" where
  "finish_name lib separator case_mode avoid_duplicates used adj_tier adj_raw noun_tier noun_raw =
     (let adj = apply_case lib adj_raw case_mode;
          noun = apply_case lib noun_raw case_mode;
          final_name = join_name adj noun separator
      in if avoid_duplicates \<and> py_lower lib final_name \<in> used then Retry
         else Return (Some (final_name, adj_tier, noun_tier)))"

text \<open>The loop body after \<open>tries += 1\<close>.\<close>

definition attempt ::
  "str_methods \<Rightarrow> pystr \<Rightarrow> pystr \<Rightarrow> bool \<Rightarrow> bool \<Rightarrow> (pystr \<rightharpoonup> (pystr \<times> pystr) list) \<Rightarrow> objects \<Rightarrow>
     (py_error + outcome) \<times> objects" where
  "attempt lib separator case_mode alliteration avoid_duplicates nouns_by_letter st =
     (case pick_word_from_tiers (obj_adjectives st) (obj_tier_weights st) (obj_rng st) of
        (Inl e, r1) \<Rightarrow> (Inl e, st\<lparr>obj_rng := r1\<rparr>)
      | (Inr None, r1) \<Rightarrow> (Inr (Return None), st\<lparr>obj_rng := r1\<rparr>)
      | (Inr (Some (adj_tier, adj_raw)), r1) \<Rightarrow>
          (let st1 = st\<lparr>obj_rng := r1\<rparr>
           in if alliteration then
                (case adj_raw of
                   [] \<Rightarrow> (Inl IndexError, st1)
                 | c # _ \<Rightarrow>
                     (let letter = py_lower lib [c];
                          candidates = dict_get nouns_by_letter letter []
                      in if candidates = [] then (Inr Retry, st1)
                         else (case rng_choice candidates (obj_rng st1) of
                                 (Inl e, r2) \<Rightarrow> (Inl e, st1\<lparr>obj_rng := r2\<rparr>)
                               | (Inr (noun_tier, noun_raw), r2) \<Rightarrow>
                                   (Inr (finish_name lib separator case_mode avoid_duplicates
                                           (obj_used_names st1) adj_tier adj_raw noun_tier noun_raw),
                                    st1\<lparr>obj_rng := r2\<rparr>))))
              else
                (case pick_word_from_tiers (obj_nouns st1) (obj_tier_weights st1) (obj_rng st1) of
                   (Inl e, r2) \<Rightarrow> (Inl e, st1\<lparr>obj_rng := r2\<rparr>)
                 | (Inr None, r2) \<Rightarrow> (Inr (Return None), st1\<lparr>obj_rng := r2\<rparr>)
                 | (Inr (Some (noun_tier, noun_raw)), r2) \<Rightarrow>
                     (Inr (finish_name lib separator case_mode avoid_duplicates
                             (obj_used_names st1) adj_tier adj_raw noun_tier noun_raw),
                      st1\<lparr>obj_rng := r2\<rparr>))))"

text \<open>
  The \<open>while tries < 250\<close> loop. It returns what the call returns or raises, the final
  value of \<open>tries\<close> and the objects.
\<close>

function gen_loop ::
  "str_methods \<Rightarrow> pystr \<Rightarrow> pystr \<Rightarrow> bool \<Rightarrow> bool \<Rightarrow> (pystr \<rightharpoonup> (pystr \<times> pystr) list) \<Rightarrow> nat \<Rightarrow> objects \<Rightarrow>
     (py_error + (pystr \<times> pystr \<times> pystr) option) \<times> nat \<times> objects" where
  "gen_loop lib separator case_mode alliteration avoid_duplicates nouns_by_letter tries st =
     (if tries < 250 then
        (case attempt lib separator case_mode alliteration avoid_duplicates nouns_by_letter st of
           (Inl e, st') \<Rightarrow> (Inl e, tries + 1, st')
         | (Inr Retry, st') \<Rightarrow>
             gen_loop lib separator case_mode alliteration avoid_duplicates nouns_by_letter
               (tries + 1) st'
         | (Inr (Return res), st') \<Rightarrow> (Inr res, tries + 1, st'))
      else (Inr None, tries, st))"
  by pat_completeness auto
termination
  by (relation "measure (\<lambda>(lib, separator, case_mode, alliteration, avoid_duplicates,
        nouns_by_letter, tries, st). 250 - tries)") auto

declare gen_loop.simps [simp del]

definition generate_one_name ::
  "str_methods \<Rightarrow> (pystr \<rightharpoonup> pystr list) \<Rightarrow> (pystr \<rightharpoonup> pystr list) \<Rightarrow> (pystr \<times> int) list \<Rightarrow>
     pystr \<Rightarrow> pystr \<Rightarrow> bool \<Rightarrow> bool \<Rightarrow> pystr set \<Rightarrow> rng_state \<Rightarrow>
     (py_error + (pystr \<times> pystr \<times> pystr) option) \<times> nat \<times> objects" where
  "generate_one_name lib adjectives nouns tier_weights separator case_mode alliteration
       avoid_duplicates used_names rng =
     (let nouns_by_letter = index_by_letter lib Map.empty (enabled_nouns nouns tier_weights)
      in gen_loop lib separator case_mode alliteration avoid_duplicates nouns_by_letter 0
           \<lparr>obj_adjectives = adjectives, obj_nouns = nouns, obj_tier_weights = tier_weights,
            obj_used_names = used_names, obj_rng = rng\<rparr>)"

text \<open>Two states of the objects that differ at most in the random source.\<close>

definition same_inputs :: "objects \<Rightarrow> objects \<Rightarrow> bool" where
  "same_inputs st st' =
     (obj_adjectives st' = obj_adjectives st \<and> obj_nouns st' = obj_nouns st \<and>
      obj_tier_weights st' = obj_tier_weights st \<and> obj_used_names st' = obj_used_names st)"

text \<open>
  Every name that the enabled pools can form is in \<open>used\<close>: the lower-case form of the
  formatted pair, for every adjective and every noun of the tiers of positive weight.
\<close>

definition all_names_used ::
  "str_methods \<Rightarrow> (pystr \<rightharpoonup> pystr list) \<Rightarrow> (pystr \<rightharpoonup> pystr list) \<Rightarrow> (pystr \<times> int) list \<Rightarrow>
     pystr \<Rightarrow> pystr \<Rightarrow> pystr set \<Rightarrow> bool" where
  "all_names_used lib adjectives nouns tw separator case_mode used =
     (\<forall>(ta, wa)\<in>set tw. \<forall>(tn, wn)\<in>set tw. 0 < wa \<longrightarrow> 0 < wn \<longrightarrow>
        (\<forall>adj\<in>set (dict_get adjectives ta []). \<forall>noun\<in>set (dict_get nouns tn []).
           py_lower lib (join_name (apply_case lib adj case_mode) (apply_case lib noun case_mode) separator)
             \<in> used))"

section \<open>Properties of the formatter\<close>

lemma py_contains_sublist: "py_contains sep s = sublist sep s"
proof (induction s)
  case Nil
  show ?case by simp
next
  case (Cons c cs)
  show ?case by (simp add: Cons.IH sublist_Cons_right)
qed

lemma py_split1_absent: "\<not> sublist sep s \<Longrightarrow> py_split1 sep s = [s]"
proof (induction s)
  case Nil
  show ?case by simp
next
  case (Cons c cs)
  from Cons.prems have np: "\<not> prefix sep (c # cs)" and ns: "\<not> sublist sep cs"
    by (simp_all add: sublist_Cons_right)
  from Cons.IH [OF ns] np show ?case by simp
qed

lemma py_split1_present:
  "sep \<noteq> [] \<Longrightarrow> sublist sep s \<Longrightarrow>
     \<exists>a b. py_split1 sep s = [a, b] \<and> first_split sep s a b"
proof (induction s)
  case Nil
  then show ?case by simp
next
  case (Cons c cs)
  show ?case
  proof (cases "prefix sep (c # cs)")
    case True
    then obtain b where b: "c # cs = sep @ b" by (auto simp: prefix_def)
    have "\<not> sublist sep (butlast sep)"
    proof
      assume "sublist sep (butlast sep)"
      then have "length sep \<le> length (butlast sep)" by (rule sublist_length_le)
      with Cons.prems(1) show False by (cases sep rule: rev_cases) simp_all
    qed
    moreover from True have "py_split1 sep (c # cs) = [[], drop (length sep) (c # cs)]"
      by simp
    moreover from b have "drop (length sep) (c # cs) = b" by simp
    ultimately have "py_split1 sep (c # cs) = [[], b] \<and> first_split sep (c # cs) [] b"
      using b by (simp add: first_split_def)
    then show ?thesis by blast
  next
    case False
    with Cons.prems have "sublist sep cs" by (simp add: sublist_Cons_right)
    from Cons.IH [OF Cons.prems(1) this] obtain a b
      where ab: "py_split1 sep cs = [a, b]" and fs: "first_split sep cs a b" by blast
    from fs have eq: "cs = a @ sep @ b" and nf: "\<not> sublist sep (a @ butlast sep)"
      by (simp_all add: first_split_def)
    have "\<not> prefix sep (c # a @ butlast sep)"
    proof
      assume "prefix sep (c # a @ butlast sep)"
      moreover have "prefix (c # a @ butlast sep) (c # cs)"
        using Cons.prems(1) eq
        by (metis Cons_prefix_Cons append_butlast_last_id append.assoc prefix_def same_prefix_prefix)
      ultimately have "prefix sep (c # cs)" by (rule prefix_order.trans)
      with False show False by simp
    qed
    with nf have "\<not> sublist sep ((c # a) @ butlast sep)"
      by (simp add: sublist_Cons_right)
    with False ab eq show ?thesis by (simp add: first_split_def)
  qed
qed

subsection \<open>The case conversions on ASCII strings\<close>

lemma title_from_length: "length (title_from prev s) = length s"
  by (induction s arbitrary: prev) simp_all

lemma title_from_nth:
  "i < length s \<Longrightarrow>
     title_from prev s ! i =
       (if (if i = 0 then prev else is_upper (s ! (i - 1)) \<or> is_lower (s ! (i - 1)))
        then lower_char (s ! i) else upper_char (s ! i))"
proof (induction s arbitrary: prev i)
  case Nil
  then show ?case by simp
next
  case (Cons c cs)
  show ?case
  proof (cases i)
    case 0
    then show ?thesis
      by (auto simp: lower_char_def upper_char_def is_upper_def is_lower_def)
  next
    case (Suc j)
    with Cons.prems have j: "j < length cs" by simp
    have "title_from prev (c # cs) ! i = title_from (is_upper c \<or> is_lower c) cs ! j"
      using Suc by (auto simp: is_upper_def is_lower_def)
    also have "\<dots> =
        (if (if j = 0 then is_upper c \<or> is_lower c
             else is_upper (cs ! (j - 1)) \<or> is_lower (cs ! (j - 1)))
         then lower_char (cs ! j) else upper_char (cs ! j))"
      by (rule Cons.IH [OF j])
    also have "\<dots> =
        (if (if i = 0 then prev
             else is_upper ((c # cs) ! (i - 1)) \<or> is_lower ((c # cs) ! (i - 1)))
         then lower_char ((c # cs) ! i) else upper_char ((c # cs) ! i))"
      using Suc by (cases j) simp_all
    finally show ?thesis .
  qed
qed

text \<open>
  C7. Formatting is fail-open. \<open>apply_case\<close> keeps the word under a mode it does not
  know. Under the three modes it knows it keeps the length of a pure ASCII word and
  converts it letter by letter: \<open>UPPER\<close> puts \<open>a-z\<close> in upper case, \<open>lower\<close> puts \<open>A-Z\<close>
  in lower case, and \<open>Title Case\<close> puts a letter in lower case after a letter and in upper
  case elsewhere; for any other word it is the runtime's \<open>str.upper\<close>, \<open>str.lower\<close> and
  \<open>str.title\<close>. \<open>join_name\<close> puts a space, a hyphen, an underscore or " of " between
  the words for the four separators it knows and a space for any other.
\<close>

theorem formatter_modes:
  "(mode \<notin> {lit ''Title Case'', lit ''UPPER'', lit ''lower''} \<longrightarrow> apply_case lib s mode = s) \<and>
   (list_all is_ascii s \<longrightarrow>
      length (apply_case lib s (lit ''UPPER'')) = length s \<and>
      length (apply_case lib s (lit ''lower'')) = length s \<and>
      length (apply_case lib s (lit ''Title Case'')) = length s \<and>
      (\<forall>i<length s.
         apply_case lib s (lit ''UPPER'') ! i =
           (if 97 \<le> s ! i \<and> s ! i \<le> 122 then s ! i - 32 else s ! i) \<and>
         apply_case lib s (lit ''lower'') ! i =
           (if 65 \<le> s ! i \<and> s ! i \<le> 90 then s ! i + 32 else s ! i) \<and>
         apply_case lib s (lit ''Title Case'') ! i =
           (if 0 < i \<and> (65 \<le> s ! (i - 1) \<and> s ! (i - 1) \<le> 90 \<or>
                         97 \<le> s ! (i - 1) \<and> s ! (i - 1) \<le> 122)
            then (if 65 \<le> s ! i \<and> s ! i \<le> 90 then s ! i + 32 else s ! i)
            else (if 97 \<le> s ! i \<and> s ! i \<le> 122 then s ! i - 32 else s ! i)))) \<and>
   (\<not> list_all is_ascii s \<longrightarrow>
      apply_case lib s (lit ''UPPER'') = lib_upper lib s \<and>
      apply_case lib s (lit ''lower'') = lib_lower lib s \<and>
      apply_case lib s (lit ''Title Case'') = lib_title lib s) \<and>
   join_name adj noun (lit ''Space'') = adj @ lit '' '' @ noun \<and>
   join_name adj noun (lit ''Hyphen'') = adj @ lit ''-'' @ noun \<and>
   join_name adj noun (lit ''Underscore'') = adj @ lit ''_'' @ noun \<and>
   join_name adj noun (lit ''of'') = adj @ lit '' of '' @ noun \<and>
   (separator \<notin> {lit ''Space'', lit ''Hyphen'', lit ''Underscore'', lit ''of''} \<longrightarrow>
      join_name adj noun separator = adj @ lit '' '' @ noun)"
proof -
  have other: "mode \<notin> {lit ''Title Case'', lit ''UPPER'', lit ''lower''} \<longrightarrow>
      apply_case lib s mode = s"
    by (simp add: apply_case_def)
  have u: "apply_case lib s (lit ''UPPER'') = py_upper lib s"
    and l: "apply_case lib s (lit ''lower'') = py_lower lib s"
    and t: "apply_case lib s (lit ''Title Case'') = py_title lib s"
    by (simp_all add: apply_case_def)
  have ascii: "list_all is_ascii s \<longrightarrow>
      length (apply_case lib s (lit ''UPPER'')) = length s \<and>
      length (apply_case lib s (lit ''lower'')) = length s \<and>
      length (apply_case lib s (lit ''Title Case'')) = length s \<and>
      (\<forall>i<length s.
         apply_case lib s (lit ''UPPER'') ! i =
           (if 97 \<le> s ! i \<and> s ! i \<le> 122 then s ! i - 32 else s ! i) \<and>
         apply_case lib s (lit ''lower'') ! i =
           (if 65 \<le> s ! i \<and> s ! i \<le> 90 then s ! i + 32 else s ! i) \<and>
         apply_case lib s (lit ''Title Case'') ! i =
           (if 0 < i \<and> (65 \<le> s ! (i - 1) \<and> s ! (i - 1) \<le> 90 \<or>
                         97 \<le> s ! (i - 1) \<and> s ! (i - 1) \<le> 122)
            then (if 65 \<le> s ! i \<and> s ! i \<le> 90 then s ! i + 32 else s ! i)
            else (if 97 \<le> s ! i \<and> s ! i \<le> 122 then s ! i - 32 else s ! i)))"
  proof (intro impI conjI allI)
    assume a: "list_all is_ascii s"
    from a show "length (apply_case lib s (lit ''UPPER'')) = length s"
      unfolding u by (simp add: py_upper_def)
    from a show "length (apply_case lib s (lit ''lower'')) = length s"
      unfolding l by (simp add: py_lower_def)
    from a show "length (apply_case lib s (lit ''Title Case'')) = length s"
      unfolding t by (simp add: py_title_def title_from_length)
    fix i
    assume i: "i < length s"
    from a i show "apply_case lib s (lit ''UPPER'') ! i =
        (if 97 \<le> s ! i \<and> s ! i \<le> 122 then s ! i - 32 else s ! i)"
      unfolding u by (simp add: py_upper_def upper_char_def is_lower_def)
    from a i show "apply_case lib s (lit ''lower'') ! i =
        (if 65 \<le> s ! i \<and> s ! i \<le> 90 then s ! i + 32 else s ! i)"
      unfolding l by (simp add: py_lower_def lower_char_def is_upper_def)
    from a have "apply_case lib s (lit ''Title Case'') ! i = title_from False s ! i"
      unfolding t by (simp add: py_title_def)
    also from i have "\<dots> =
        (if (if i = 0 then False else is_upper (s ! (i - 1)) \<or> is_lower (s ! (i - 1)))
         then lower_char (s ! i) else upper_char (s ! i))"
      by (rule title_from_nth)
    also have "\<dots> =
        (if 0 < i \<and> (65 \<le> s ! (i - 1) \<and> s ! (i - 1) \<le> 90 \<or>
                      97 \<le> s ! (i - 1) \<and> s ! (i - 1) \<le> 122)
         then (if 65 \<le> s ! i \<and> s ! i \<le> 90 then s ! i + 32 else s ! i)
         else (if 97 \<le> s ! i \<and> s ! i \<le> 122 then s ! i - 32 else s ! i))"
      by (simp add: lower_char_def upper_char_def is_upper_def is_lower_def)
    finally show "apply_case lib s (lit ''Title Case'') ! i =
        (if 0 < i \<and> (65 \<le> s ! (i - 1) \<and> s ! (i - 1) \<le> 90 \<or>
                      97 \<le> s ! (i - 1) \<and> s ! (i - 1) \<le> 122)
         then (if 65 \<le> s ! i \<and> s ! i \<le> 90 then s ! i + 32 else s ! i)
         else (if 97 \<le> s ! i \<and> s ! i \<le> 122 then s ! i - 32 else s ! i))" .
  qed
  have lib: "\<not> list_all is_ascii s \<longrightarrow>
      apply_case lib s (lit ''UPPER'') = lib_upper lib s \<and>
      apply_case lib s (lit ''lower'') = lib_lower lib s \<and>
      apply_case lib s (lit ''Title Case'') = lib_title lib s"
    unfolding u l t by (simp add: py_upper_def py_lower_def py_title_def)
  have j: "join_name adj noun (lit ''Space'') = adj @ lit '' '' @ noun \<and>
   join_name adj noun (lit ''Hyphen'') = adj @ lit ''-'' @ noun \<and>
   join_name adj noun (lit ''Underscore'') = adj @ lit ''_'' @ noun \<and>
   join_name adj noun (lit ''of'') = adj @ lit '' of '' @ noun \<and>
   (separator \<notin> {lit ''Space'', lit ''Hyphen'', lit ''Underscore'', lit ''of''} \<longrightarrow>
      join_name adj noun separator = adj @ lit '' '' @ noun)"
    by (simp add: join_name_def)
  from other ascii lib j show ?thesis by (intro conjI) (elim conjE, assumption)+
qed

theorem formatter_modes_witness:
  "lit ''Unchanged'' \<notin> {lit ''Title Case'', lit ''UPPER'', lit ''lower''} \<and>
   lit ''Slash'' \<notin> {lit ''Space'', lit ''Hyphen'', lit ''Underscore'', lit ''of''} \<and>
   list_all is_ascii (lit ''fire panther'') \<and>
   apply_case no_table (lit ''sHadow'') (lit ''Unchanged'') = lit ''sHadow'' \<and>
   length (apply_case no_table (lit ''fire panther'') (lit ''UPPER'')) = 12 \<and>
   apply_case no_table (lit ''fire panther'') (lit ''UPPER'') ! 5 = of_char CHR ''P'' \<and>
   apply_case no_table (lit ''fire panther'') (lit ''UPPER'') = lit ''FIRE PANTHER'' \<and>
   apply_case no_table (lit ''FanG'') (lit ''lower'') = lit ''fang'' \<and>
   apply_case no_table (lit ''sHadow fang'') (lit ''Title Case'') = lit ''Shadow Fang'' \<and>
   join_name (lit ''Shadow'') (lit ''Fang'') (lit ''Hyphen'') = lit ''Shadow-Fang'' \<and>
   join_name (lit ''Shadow'') (lit ''Fang'') (lit ''of'') = lit ''Shadow of Fang'' \<and>
   join_name (lit ''Shadow'') (lit ''Fang'') (lit ''Slash'') = lit ''Shadow Fang''"
proof -
  note th = formatter_modes [where lib = no_table and mode = "lit ''Unchanged''"
      and adj = "lit ''Shadow''" and noun = "lit ''Fang''" and separator = "lit ''Slash''"]
  have m: "lit ''Unchanged'' \<notin> {lit ''Title Case'', lit ''UPPER'', lit ''lower''}" by simp
  have sp: "lit ''Slash'' \<notin> {lit ''Space'', lit ''Hyphen'', lit ''Underscore'', lit ''of''}" by simp
  have a: "list_all is_ascii (lit ''fire panther'')" by (simp add: is_ascii_def)
  from th [where s = "lit ''sHadow''", THEN conjunct1, THEN mp, OF m]
  have c1: "apply_case no_table (lit ''sHadow'') (lit ''Unchanged'') = lit ''sHadow''" .
  note asc = th [where s = "lit ''fire panther''", THEN conjunct2, THEN conjunct1, THEN mp, OF a]
  from asc have c2: "length (apply_case no_table (lit ''fire panther'') (lit ''UPPER'')) = 12"
    by simp
  from asc have "\<forall>i<length (lit ''fire panther'').
      apply_case no_table (lit ''fire panther'') (lit ''UPPER'') ! i =
        (if 97 \<le> lit ''fire panther'' ! i \<and> lit ''fire panther'' ! i \<le> 122
         then lit ''fire panther'' ! i - 32 else lit ''fire panther'' ! i)"
    by blast
  from this [rule_format, of 5]
  have c3: "apply_case no_table (lit ''fire panther'') (lit ''UPPER'') ! 5 = of_char CHR ''P''"
    by simp
  have c4: "apply_case no_table (lit ''fire panther'') (lit ''UPPER'') = lit ''FIRE PANTHER''"
    by (simp add: apply_case_def py_upper_def is_ascii_def upper_char_def is_lower_def)
  have c5: "apply_case no_table (lit ''FanG'') (lit ''lower'') = lit ''fang''"
    by (simp add: apply_case_def py_lower_def is_ascii_def lower_char_def is_upper_def)
  have c6: "apply_case no_table (lit ''sHadow fang'') (lit ''Title Case'') = lit ''Shadow Fang''"
    by (simp add: apply_case_def py_title_def is_ascii_def lower_char_def upper_char_def
        is_upper_def is_lower_def)
  from th [where s = "[]"] sp
  have c7: "join_name (lit ''Shadow'') (lit ''Fang'') (lit ''Hyphen'') = lit ''Shadow-Fang''"
    and c8: "join_name (lit ''Shadow'') (lit ''Fang'') (lit ''of'') = lit ''Shadow of Fang''"
    and c9: "join_name (lit ''Shadow'') (lit ''Fang'') (lit ''Slash'') = lit ''Shadow Fang''"
    by simp_all
  from m sp a c1 c2 c3 c4 c5 c6 c7 c8 c9 show ?thesis by (intro conjI)
qed

text \<open>
  C8. \<open>split_for_display\<close> never raises and tries the delimiters in the order " of ",
  "-", "_", space: it splits once, at the leftmost occurrence of the first delimiter of
  that list which occurs in the name; when none occurs the left part is the whole name
  and the right part is empty.
\<close>

theorem split_for_display_priority:
  "\<exists>a b. split_for_display s = Inr (a, b) \<and>
     (if sublist (lit '' of '') s then first_split (lit '' of '') s a b
      else if of_char CHR ''-'' \<in> set s then first_split (lit ''-'') s a b
      else if of_char CHR ''_'' \<in> set s then first_split (lit ''_'') s a b
      else if of_char CHR '' '' \<in> set s then first_split (lit '' '') s a b
      else a = s \<and> b = [])"
proof -
  have single: "sublist [c] s = (c \<in> set s)" for c :: nat
    by (induction s) (simp_all add: sublist_Cons_right)
  have present: "\<exists>a b. unpack2 (py_split1 d s) = Inr (a, b) \<and> first_split d s a b"
    if "d \<noteq> []" "sublist d s" for d
    using py_split1_present [OF that] by (auto simp: unpack2_def)
  show ?thesis
  proof (cases "sublist (lit '' of '') s")
    case True
    with present [of "lit '' of ''"] show ?thesis
      by (simp add: split_for_display_def py_contains_sublist)
  next
    case n1: False
    show ?thesis
    proof (cases "of_char CHR ''-'' \<in> set s")
      case True
      with n1 present [of "lit ''-''"] show ?thesis
        by (simp add: split_for_display_def py_contains_sublist single)
    next
      case n2: False
      show ?thesis
      proof (cases "of_char CHR ''_'' \<in> set s")
        case True
        with n1 n2 present [of "lit ''_''"] show ?thesis
          by (simp add: split_for_display_def py_contains_sublist single)
      next
        case n3: False
        show ?thesis
        proof (cases "of_char CHR '' '' \<in> set s")
          case True
          then have "sublist (lit '' '') s" by (simp add: single)
          from py_split1_present [OF _ this] obtain a b
            where "py_split1 (lit '' '') s = [a, b]" "first_split (lit '' '') s a b" by auto
          with n1 n2 n3 True show ?thesis
            by (simp add: split_for_display_def py_contains_sublist single)
        next
          case False
          then have "py_split1 (lit '' '') s = [s]"
            by (intro py_split1_absent) (simp add: single)
          with n1 n2 n3 False show ?thesis
            by (simp add: split_for_display_def py_contains_sublist single)
        qed
      qed
    qed
  qed
qed

theorem split_for_display_priority_witness:
  "sublist (lit '' of '') (lit ''Ash-Red of Old_Fang'') \<and>
   split_for_display (lit ''Ash-Red of Old_Fang'') = Inr (lit ''Ash-Red'', lit ''Old_Fang'') \<and>
   first_split (lit '' of '') (lit ''Ash-Red of Old_Fang'') (lit ''Ash-Red'') (lit ''Old_Fang'')"
proof -
  have sub: "sublist (lit '' of '') (lit ''Ash-Red of Old_Fang'')"
    by (simp add: py_contains_sublist [symmetric])
  have val: "split_for_display (lit ''Ash-Red of Old_Fang'') = Inr (lit ''Ash-Red'', lit ''Old_Fang'')"
    by (simp add: split_for_display_def unpack2_def)
  from split_for_display_priority [of "lit ''Ash-Red of Old_Fang''"] sub val
  show ?thesis by simp
qed

section \<open>Properties of the normalizer\<close>

lemma py_strip_Nil: "py_strip [] = []"
  by (simp add: py_strip_def)

lemma py_strip_subset: "set (py_strip s) \<subseteq> set s"
  unfolding py_strip_def by (auto dest!: set_dropWhileD)

lemma py_strip_id:
  assumes "s \<noteq> []" "\<not> py_isspace (hd s)" "\<not> py_isspace (last s)"
  shows "py_strip s = s"
proof -
  from assms have "dropWhile py_isspace s = s" by (simp add: dropWhile_eq_self_iff)
  moreover from assms have "dropWhile py_isspace (rev s) = rev s"
    by (simp add: dropWhile_eq_self_iff hd_rev)
  ultimately show ?thesis by (simp add: py_strip_def)
qed

lemma py_strip_ends:
  assumes "py_strip s \<noteq> []"
  shows "\<not> py_isspace (hd (py_strip s)) \<and> \<not> py_isspace (last (py_strip s))"
proof -
  define y where "y = dropWhile py_isspace s"
  define z where "z = dropWhile py_isspace (rev y)"
  have r: "py_strip s = rev z" by (simp add: py_strip_def y_def z_def)
  with assms have z: "z \<noteq> []" by simp
  then have y: "y \<noteq> []" by (auto simp: z_def)
  have hz: "\<not> py_isspace (hd z)" using z unfolding z_def by (rule hd_dropWhile)
  have hy: "\<not> py_isspace (hd y)" using y unfolding y_def by (rule hd_dropWhile)
  have "last z = last (rev y)"
    using z unfolding z_def by (metis dropWhile_last hd_dropWhile hd_in_set set_dropWhileD)
  with y hy have "\<not> py_isspace (last z)" by (simp add: last_rev)
  with hz z show ?thesis by (simp add: r hd_rev last_rev)
qed

lemma delim_not_allowed: "is_delim c \<Longrightarrow> \<not> allowed_char c"
  by (auto simp: is_delim_def allowed_char_def is_upper_def is_lower_def)

subsection \<open>The first loop\<close>

lemma collect_words_filter:
  "collect_words raw =
     filter (\<lambda>w. w \<noteq> []) (map (\<lambda>p. py_strip (re_sub (py_strip p))) raw)"
  by (induction raw) (simp_all add: Let_def py_strip_Nil re_sub_def)

lemma collect_words_clean:
  assumes "w \<in> set (collect_words raw)"
  shows "w \<noteq> []" and "\<forall>c\<in>set w. allowed_char c" and "py_strip w = w"
proof -
  from assms obtain p where w: "w = py_strip (re_sub (py_strip p))" and ne: "w \<noteq> []"
    by (auto simp: collect_words_filter)
  show "w \<noteq> []" by (fact ne)
  have "set w \<subseteq> set (re_sub (py_strip p))" unfolding w by (rule py_strip_subset)
  then show "\<forall>c\<in>set w. allowed_char c" by (auto simp: re_sub_def)
  from ne py_strip_ends [of "re_sub (py_strip p)"]
  have "\<not> py_isspace (hd w)" "\<not> py_isspace (last w)" by (simp_all add: w)
  with ne show "py_strip w = w" by (rule py_strip_id)
qed

lemma collect_words_id:
  assumes "\<forall>w\<in>set ws. w \<noteq> [] \<and> (\<forall>c\<in>set w. allowed_char c) \<and> py_strip w = w"
  shows "collect_words ws = ws"
proof -
  have "map (\<lambda>p. py_strip (re_sub (py_strip p))) ws = ws"
    using assms by (simp add: map_idI re_sub_def)
  moreover have "filter (\<lambda>w. w \<noteq> []) ws = ws" using assms by simp
  ultimately show ?thesis by (simp add: collect_words_filter)
qed

subsection \<open>The second loop\<close>


lemma dedupe_subset: "set (dedupe lib seen ws) \<subseteq> set ws"
  by (induction ws arbitrary: seen) (auto simp: Let_def)


lemma dedupe_keys:
  "distinct (map (py_lower lib) (dedupe lib seen ws)) \<and> py_lower lib ` set (dedupe lib seen ws) \<inter> seen = {}"
  by (induction ws arbitrary: seen) (auto simp: Let_def)

lemma dedupe_id:
  "distinct (map (py_lower lib) ws) \<Longrightarrow> py_lower lib ` set ws \<inter> seen = {} \<Longrightarrow> dedupe lib seen ws = ws"
  by (induction ws arbitrary: seen) (auto simp: Let_def)

subsection \<open>Splitting\<close>

lemma re_split_nonempty: "re_split t \<noteq> []"
  by (induction t rule: re_split.induct) (auto split: list.splits)



lemma re_split_append:
  "\<forall>c\<in>set w. \<not> is_delim c \<Longrightarrow>
     re_split (w @ s) = (w @ hd (re_split s)) # tl (re_split s)"
proof (induction w)
  case Nil
  show ?case using re_split_nonempty [of s] by simp
next
  case (Cons a w)
  then show ?case by simp
qed

lemma py_join_Cons:
  "py_join sep (w # ws) = w @ (if ws = [] then [] else sep @ py_join sep ws)"
  by (cases ws) simp_all

lemma re_split_join:
  "ws \<noteq> [] \<Longrightarrow> \<forall>w\<in>set ws. w \<noteq> [] \<and> (\<forall>c\<in>set w. \<not> is_delim c) \<Longrightarrow>
     re_split (py_join [10] ws) = ws"
proof (induction ws)
  case Nil
  then show ?case by simp
next
  case (Cons w ws)
  from Cons.prems have w: "\<forall>c\<in>set w. \<not> is_delim c" by simp
  show ?case
  proof (cases ws)
    case Nil
    with re_split_append [OF w, of "[]"] show ?thesis by simp
  next
    case (Cons v vs)
    with Cons.prems have v: "v \<noteq> []" "\<not> is_delim (hd v)" by auto
    let ?rest = "py_join [10] ws"
    from Cons have "?rest = v @ (if vs = [] then [] else [10] @ py_join [10] vs)"
      by (simp add: py_join_Cons)
    with v have "?rest \<noteq> []" "\<not> is_delim (hd ?rest)" by simp_all
    then have dw: "dropWhile is_delim ?rest = ?rest" by (simp add: dropWhile_eq_self_iff)
    have ih: "re_split ?rest = ws" using Cons.IH Cons.prems Cons by simp
    have "re_split (10 # ?rest) = [] # ws"
      using dw ih by (simp add: is_delim_def)
    with re_split_append [OF w, of "10 # ?rest"] Cons show ?thesis by simp
  qed
qed

lemma normalize_words_clean:
  assumes "w \<in> set (normalize_words lib text)"
  shows "w \<noteq> []" and "\<forall>c\<in>set w. allowed_char c" and "py_strip w = w"
proof -
  from assms dedupe_subset have "w \<in> set (collect_words (re_split text))"
    unfolding normalize_words_def by blast
  then show "w \<noteq> []" and "\<forall>c\<in>set w. allowed_char c" and "py_strip w = w"
    by (rule collect_words_clean)+
qed



text \<open>
  C6. Normalization is idempotent: normalizing the output of \<open>normalize_words\<close>, joined
  with newlines, gives that output again.
\<close>

theorem normalize_words_idempotent:
  "normalize_words lib (py_join [10] (normalize_words lib text)) = normalize_words lib text"
proof (cases "normalize_words lib text = []")
  case True
  then show ?thesis by (simp add: normalize_words_def py_strip_Nil)
next
  case False
  let ?out = "normalize_words lib text"
  have clean: "\<forall>w\<in>set ?out. w \<noteq> [] \<and> (\<forall>c\<in>set w. allowed_char c) \<and> py_strip w = w"
    using normalize_words_clean by blast
  then have "\<forall>w\<in>set ?out. w \<noteq> [] \<and> (\<forall>c\<in>set w. \<not> is_delim c)"
    using delim_not_allowed by blast
  with False have "re_split (py_join [10] ?out) = ?out" by (rule re_split_join)
  moreover from clean have "collect_words ?out = ?out" by (rule collect_words_id)
  moreover have "dedupe lib {} ?out = ?out"
  proof (rule dedupe_id)
    show "distinct (map (py_lower lib) ?out)"
      unfolding normalize_words_def using dedupe_keys by blast
  qed simp
  ultimately show ?thesis by (simp add: normalize_words_def)
qed


section \<open>Properties of the picker\<close>

lemma weighted_index_less: "ws \<noteq> [] \<Longrightarrow> weighted_index ws x < length ws"
  by (induction ws x rule: weighted_index.induct) simp_all

lemma sum_list_positive: "ws \<noteq> [] \<Longrightarrow> \<forall>w\<in>set ws. (0::int) < w \<Longrightarrow> 0 < sum_list ws"
proof (induction ws)
  case Nil
  then show ?case by simp
next
  case (Cons w ws)
  then show ?case by (cases ws) (simp_all add: add_pos_pos)
qed

lemma rng_choices_sound:
  assumes "rng_choices population weights r = (Inr x, r')"
  shows "x \<in> set population"
proof -
  from assms have len: "length weights = length population" and ne: "weights \<noteq> []"
    by (auto simp: rng_choices_def split: if_splits)
  from ne have "weighted_index weights i < length population" for i
    using weighted_index_less [of weights i] len by simp
  with assms len ne show ?thesis
    by (auto simp: rng_choices_def Let_def split: if_splits prod.splits)
qed

lemma rng_choices_total:
  assumes "length weights = length population" "population \<noteq> []" "0 < sum_list weights"
  shows "\<exists>x. rng_choices population weights r = (Inr x, snd (rng_next r))"
  using assms by (auto simp: rng_choices_def Let_def split: prod.splits)

lemma rng_choice_sound:
  assumes "rng_choice xs r = (Inr x, r')"
  shows "x \<in> set xs"
  using assms by (auto simp: rng_choice_def split: if_splits prod.splits)

lemma rng_choice_total:
  "xs \<noteq> [] \<Longrightarrow> \<exists>x. rng_choice xs r = (Inr x, snd (rng_next r))"
  by (auto simp: rng_choice_def split: prod.splits)

lemma available_tiers_mem:
  "t \<in> set (available_tiers word_lists tw) \<longleftrightarrow>
     (\<exists>w. (t, w) \<in> set tw \<and> 0 < w \<and> dict_get word_lists t [] \<noteq> [])"
  by (force simp: available_tiers_def)

lemma available_tiers_Nil:
  "available_tiers word_lists tw = [] \<longleftrightarrow>
     \<not> (\<exists>(t, w)\<in>set tw. 0 < w \<and> dict_get word_lists t [] \<noteq> [])"
proof -
  have "available_tiers word_lists tw = [] \<longleftrightarrow> (\<forall>t. t \<notin> set (available_tiers word_lists tw))"
    by (cases "available_tiers word_lists tw") auto
  then show ?thesis by (auto simp: available_tiers_mem)
qed

lemma weights_of_positive:
  assumes "distinct (map fst tw)"
    and "\<forall>t\<in>set ts. \<exists>w. (t, w) \<in> set tw \<and> 0 < w"
  shows "\<exists>ws. weights_of tw ts = Inr ws \<and> length ws = length ts \<and> (\<forall>w\<in>set ws. 0 < w)"
  using assms(2)
proof (induction ts)
  case Nil
  show ?case by simp
next
  case (Cons t ts)
  then obtain w where w: "(t, w) \<in> set tw" "0 < w" by auto
  with assms(1) have "map_of tw t = Some w" by simp
  moreover from Cons obtain ws
    where "weights_of tw ts = Inr ws" "length ws = length ts" "\<forall>w\<in>set ws. 0 < w" by auto
  ultimately show ?case using w by (simp add: dict_getitem_def)
qed

lemma pick_empty:
  "available_tiers word_lists tw = [] \<Longrightarrow> pick_word_from_tiers word_lists tw r = (Inr None, r)"
  by (simp add: pick_word_from_tiers_def)

lemma pick_sound:
  assumes "pick_word_from_tiers word_lists tw r = (Inr (Some (t, word)), r')"
  shows "(\<exists>w. (t, w) \<in> set tw \<and> 0 < w) \<and> word \<in> set (dict_get word_lists t [])"
proof -
  from assms obtain weights r1 ws
    where c: "rng_choices (available_tiers word_lists tw) weights r = (Inr t, r1)"
      and g: "dict_getitem word_lists t = Inr ws"
      and w: "rng_choice ws r1 = (Inr word, r')"
    by (auto simp: pick_word_from_tiers_def
        split: if_splits sum.splits prod.splits)
  from c have "t \<in> set (available_tiers word_lists tw)" by (rule rng_choices_sound)
  then have "\<exists>w. (t, w) \<in> set tw \<and> 0 < w" by (auto simp: available_tiers_mem)
  moreover from g have "dict_get word_lists t [] = ws"
    by (auto simp: dict_getitem_def dict_get_def split: option.splits)
  moreover from w have "word \<in> set ws" by (rule rng_choice_sound)
  ultimately show ?thesis by simp
qed

lemma pick_not_None:
  assumes "available_tiers word_lists tw \<noteq> []"
  shows "pick_word_from_tiers word_lists tw r \<noteq> (Inr None, r')"
  using assms
  by (auto simp: pick_word_from_tiers_def split: sum.splits prod.splits)

lemma pick_total:
  assumes "distinct (map fst tw)" and "available_tiers word_lists tw \<noteq> []"
  shows "\<exists>t word r'. pick_word_from_tiers word_lists tw r = (Inr (Some (t, word)), r')"
proof -
  let ?av = "available_tiers word_lists tw"
  have "\<forall>t\<in>set ?av. \<exists>w. (t, w) \<in> set tw \<and> 0 < w"
    by (auto simp: available_tiers_mem)
  from weights_of_positive [OF assms(1) this] obtain weights
    where ws: "weights_of tw ?av = Inr weights" "length weights = length ?av"
      "\<forall>w\<in>set weights. 0 < w" by blast
  with assms(2) have "weights \<noteq> []" by auto
  with ws have "0 < sum_list weights" by (intro sum_list_positive)
  from rng_choices_total [OF ws(2) assms(2) this] obtain t
    where c: "rng_choices ?av weights r = (Inr t, snd (rng_next r))" by blast
  then have "t \<in> set ?av" by (rule rng_choices_sound)
  then have "dict_get word_lists t [] \<noteq> []" by (auto simp: available_tiers_mem)
  then obtain wl where g: "dict_getitem word_lists t = Inr wl" "wl \<noteq> []"
    by (auto simp: dict_getitem_def dict_get_def split: option.splits)
  from rng_choice_total [OF g(2)] obtain word
    where "rng_choice wl (snd (rng_next r)) = (Inr word, snd (rng_next (snd (rng_next r))))"
    by blast
  with assms(2) ws(1) c g(1) show ?thesis by (simp add: pick_word_from_tiers_def)
qed

text \<open>
  C1. Whatever the random source draws, \<open>pick_word_from_tiers\<close> does not raise; it
  returns None exactly when no tier has both a positive weight and a non-empty word list;
  and a pair it returns is a tier of positive weight with a word of that tier's list, so
  the tier is never one whose weight is 0.
\<close>

theorem pick_word_from_tiers_spec:
  assumes "distinct (map fst tw)"
  shows "(\<exists>res r'. pick_word_from_tiers word_lists tw r = (Inr res, r')) \<and>
         ((\<exists>r'. pick_word_from_tiers word_lists tw r = (Inr None, r')) \<longleftrightarrow>
            \<not> (\<exists>(t, w)\<in>set tw. 0 < w \<and> dict_get word_lists t [] \<noteq> [])) \<and>
         (\<forall>t word r'. pick_word_from_tiers word_lists tw r = (Inr (Some (t, word)), r') \<longrightarrow>
            (\<exists>w. map_of tw t = Some w \<and> 0 < w) \<and>
            word \<in> set (dict_get word_lists t []) \<and>
            (\<forall>T. map_of tw T = Some 0 \<longrightarrow> t \<noteq> T))"
proof (intro conjI allI impI)
  show "\<exists>res r'. pick_word_from_tiers word_lists tw r = (Inr res, r')"
  proof (cases "available_tiers word_lists tw = []")
    case True
    then show ?thesis by (auto simp: pick_empty)
  next
    case False
    from pick_total [OF assms False] show ?thesis by blast
  qed
next
  show "(\<exists>r'. pick_word_from_tiers word_lists tw r = (Inr None, r')) \<longleftrightarrow>
          \<not> (\<exists>(t, w)\<in>set tw. 0 < w \<and> dict_get word_lists t [] \<noteq> [])"
    unfolding available_tiers_Nil [symmetric]
    using pick_empty pick_not_None by blast
next
  fix t word r'
  assume p: "pick_word_from_tiers word_lists tw r = (Inr (Some (t, word)), r')"
  from pick_sound [OF p] obtain w where w: "(t, w) \<in> set tw" "0 < w"
    and wd: "word \<in> set (dict_get word_lists t [])" by blast
  from assms w(1) have m: "map_of tw t = Some w" by simp
  with w(2) show "\<exists>w. map_of tw t = Some w \<and> 0 < w" by simp
  from wd show "word \<in> set (dict_get word_lists t [])" .
  fix T
  assume "map_of tw T = Some 0"
  with m w(2) show "t \<noteq> T" by auto
qed


theorem pick_word_from_tiers_spec_witness:
  "distinct (map fst [(lit ''Common'', 0::int), (lit ''Rare'', 3)]) \<and>
   pick_word_from_tiers [lit ''Common'' \<mapsto> [lit ''Swift''], lit ''Rare'' \<mapsto> [lit ''Silver'', lit ''Feral'']]
     [(lit ''Common'', 0), (lit ''Rare'', 3)] (\<lambda>n. n) = (Inr (Some (lit ''Rare'', lit ''Feral'')), \<lambda>n. n + 2) \<and>
   (\<exists>w. map_of [(lit ''Common'', 0::int), (lit ''Rare'', 3)] (lit ''Rare'') = Some w \<and> 0 < w) \<and>
   map_of [(lit ''Common'', 0::int), (lit ''Rare'', 3)] (lit ''Common'') = Some 0 \<and> lit ''Rare'' \<noteq> lit ''Common''"
proof -
  define tw where "tw = [(lit ''Common'', 0::int), (lit ''Rare'', 3)]"
  define wl where "wl = [lit ''Common'' \<mapsto> [lit ''Swift''], lit ''Rare'' \<mapsto> [lit ''Silver'', lit ''Feral'']]"
  have d: "distinct (map fst tw)" by (simp add: tw_def)
  have p: "pick_word_from_tiers wl tw (\<lambda>n. n) = (Inr (Some (lit ''Rare'', lit ''Feral'')), \<lambda>n. n + 2)"
    by (simp add: pick_word_from_tiers_def available_tiers_def dict_get_def dict_getitem_def
        rng_choices_def rng_choice_def rng_next_def tw_def wl_def)
  from pick_word_from_tiers_spec [OF d, of wl "\<lambda>n. n"]
  have "\<forall>t word r'. pick_word_from_tiers wl tw (\<lambda>n. n) = (Inr (Some (t, word)), r') \<longrightarrow>
            (\<exists>w. map_of tw t = Some w \<and> 0 < w) \<and>
            word \<in> set (dict_get wl t []) \<and>
            (\<forall>T. map_of tw T = Some 0 \<longrightarrow> t \<noteq> T)"
    by (elim conjE)
  from this [rule_format, OF p]
  have "(\<exists>w. map_of tw (lit ''Rare'') = Some w \<and> 0 < w) \<and>
        (\<forall>T. map_of tw T = Some 0 \<longrightarrow> lit ''Rare'' \<noteq> T)"
    by simp
  with d p show ?thesis unfolding tw_def wl_def by simp
qed

section \<open>Properties of the generator\<close>

subsection \<open>The index of the nouns\<close>

lemma enabled_nouns_mem:
  "(t, n) \<in> set (enabled_nouns nouns tw) \<longleftrightarrow>
     (\<exists>w. (t, w) \<in> set tw \<and> 0 < w \<and> n \<in> set (dict_get nouns t []))"
  by (auto simp: enabled_nouns_def split: if_splits)

lemma index_by_letter_sound:
  "(t, n) \<in> set (dict_get (index_by_letter lib m xs) k []) \<Longrightarrow>
     (t, n) \<in> set (dict_get m k []) \<or> ((t, n) \<in> set xs \<and> n \<noteq> [] \<and> py_lower lib [hd n] = k)"
proof (induction lib m xs rule: index_by_letter.induct)
  case (1 lib m)
  then show ?case by simp
next
  case (2 lib m t0 n0 rest)
  show ?case
  proof (cases n0)
    case Nil
    with 2 show ?thesis by auto
  next
    case (Cons c cs)
    let ?k0 = "py_lower lib [c]"
    let ?m' = "m(?k0 \<mapsto> dict_get m ?k0 [] @ [(t0, n0)])"
    from "2.prems" Cons have "(t, n) \<in> set (dict_get (index_by_letter lib ?m' rest) k [])"
      by (simp add: Let_def)
    from "2.IH"(2) [OF Cons refl this]
    have "(t, n) \<in> set (dict_get ?m' k []) \<or> ((t, n) \<in> set rest \<and> n \<noteq> [] \<and> py_lower lib [hd n] = k)" .
    moreover have "dict_get ?m' k [] = (if k = ?k0 then dict_get m ?k0 [] @ [(t0, n0)] else dict_get m k [])"
      by (simp add: dict_get_def)
    ultimately show ?thesis using Cons by (auto split: if_splits)
  qed
qed

lemma nouns_by_letter_sound:
  assumes "(t, n) \<in> set (dict_get (index_by_letter lib Map.empty (enabled_nouns nouns tw)) k [])"
  shows "(\<exists>w. (t, w) \<in> set tw \<and> 0 < w) \<and> n \<in> set (dict_get nouns t []) \<and>
         n \<noteq> [] \<and> py_lower lib [hd n] = k"
proof -
  from index_by_letter_sound [OF assms]
  have "(t, n) \<in> set (enabled_nouns nouns tw) \<and> n \<noteq> [] \<and> py_lower lib [hd n] = k"
    by (simp add: dict_get_def)
  then show ?thesis by (auto simp: enabled_nouns_mem)
qed

subsection \<open>One pass through the loop body\<close>

lemma attempt_sound:
  assumes "attempt lib separator case_mode alliteration avoid_duplicates nbl st =
             (Inr (Return (Some (final_name, adj_tier, noun_tier))), st')"
  shows "\<exists>adj_raw noun_raw.
           (\<exists>w. (adj_tier, w) \<in> set (obj_tier_weights st) \<and> 0 < w) \<and>
           adj_raw \<in> set (dict_get (obj_adjectives st) adj_tier []) \<and>
           (if alliteration
            then adj_raw \<noteq> [] \<and> (noun_tier, noun_raw) \<in> set (dict_get nbl (py_lower lib [hd adj_raw]) [])
            else (\<exists>w. (noun_tier, w) \<in> set (obj_tier_weights st) \<and> 0 < w) \<and>
                 noun_raw \<in> set (dict_get (obj_nouns st) noun_tier [])) \<and>
           final_name = join_name (apply_case lib adj_raw case_mode) (apply_case lib noun_raw case_mode) separator \<and>
           \<not> (avoid_duplicates \<and> py_lower lib final_name \<in> obj_used_names st)"
proof -
  let ?P = "\<lambda>adj_raw noun_raw.
           (\<exists>w. (adj_tier, w) \<in> set (obj_tier_weights st) \<and> 0 < w) \<and>
           adj_raw \<in> set (dict_get (obj_adjectives st) adj_tier []) \<and>
           (if alliteration
            then adj_raw \<noteq> [] \<and> (noun_tier, noun_raw) \<in> set (dict_get nbl (py_lower lib [hd adj_raw]) [])
            else (\<exists>w. (noun_tier, w) \<in> set (obj_tier_weights st) \<and> 0 < w) \<and>
                 noun_raw \<in> set (dict_get (obj_nouns st) noun_tier [])) \<and>
           final_name = join_name (apply_case lib adj_raw case_mode) (apply_case lib noun_raw case_mode) separator \<and>
           \<not> (avoid_duplicates \<and> py_lower lib final_name \<in> obj_used_names st)"
  from assms obtain adj_raw r1
    where pa: "pick_word_from_tiers (obj_adjectives st) (obj_tier_weights st) (obj_rng st) =
                 (Inr (Some (adj_tier, adj_raw)), r1)"
    by (auto simp: attempt_def Let_def finish_name_def
        split: prod.splits sum.splits option.splits list.splits if_splits)
  note adj = pick_sound [OF pa]
  show ?thesis
  proof (cases alliteration)
    case True
    with assms pa obtain c cs r2 nt noun_raw
      where a: "adj_raw = c # cs"
        and ch0: "rng_choice (dict_get nbl (py_lower lib [c]) []) r1 = (Inr (nt, noun_raw), r2)"
        and fin0: "finish_name lib separator case_mode avoid_duplicates (obj_used_names st)
                    adj_tier adj_raw nt noun_raw = Return (Some (final_name, adj_tier, noun_tier))"
      by (auto simp: attempt_def Let_def
          split: prod.splits sum.splits option.splits list.splits if_splits)
    from fin0 have nt: "nt = noun_tier"
      by (auto simp: finish_name_def Let_def split: if_splits)
    note ch = ch0 [unfolded nt] and fin = fin0 [unfolded nt]
    from ch have "(noun_tier, noun_raw) \<in> set (dict_get nbl (py_lower lib [c]) [])"
      by (rule rng_choice_sound)
    moreover from fin have
      "final_name = join_name (apply_case lib adj_raw case_mode) (apply_case lib noun_raw case_mode) separator"
      "\<not> (avoid_duplicates \<and> py_lower lib final_name \<in> obj_used_names st)"
      by (auto simp: finish_name_def Let_def split: if_splits)
    ultimately have "?P adj_raw noun_raw" using adj a True by simp
    then show ?thesis by blast
  next
    case False
    with assms pa obtain r2 nt noun_raw
      where pn0: "pick_word_from_tiers (obj_nouns st) (obj_tier_weights st) r1 =
                   (Inr (Some (nt, noun_raw)), r2)"
        and fin0: "finish_name lib separator case_mode avoid_duplicates (obj_used_names st)
                    adj_tier adj_raw nt noun_raw = Return (Some (final_name, adj_tier, noun_tier))"
      by (auto simp: attempt_def Let_def
          split: prod.splits sum.splits option.splits list.splits if_splits)
    from fin0 have nt: "nt = noun_tier"
      by (auto simp: finish_name_def Let_def split: if_splits)
    note pn = pn0 [unfolded nt] and fin = fin0 [unfolded nt]
    note noun = pick_sound [OF pn]
    from fin have
      "final_name = join_name (apply_case lib adj_raw case_mode) (apply_case lib noun_raw case_mode) separator"
      "\<not> (avoid_duplicates \<and> py_lower lib final_name \<in> obj_used_names st)"
      by (auto simp: finish_name_def Let_def split: if_splits)
    with adj noun False have "?P adj_raw noun_raw" by simp
    then show ?thesis by blast
  qed
qed

subsection \<open>The objects are only read\<close>
lemma attempt_frame:
  assumes "attempt lib separator case_mode alliteration avoid_duplicates nbl st = (out, st')"
  shows "same_inputs st st'"
  using assms
  by (auto simp: same_inputs_def attempt_def Let_def
      split: prod.splits sum.splits option.splits list.splits if_splits)



lemma same_inputs_refl: "same_inputs st st"
  by (simp add: same_inputs_def)

lemma same_inputs_trans: "same_inputs a b \<Longrightarrow> same_inputs b c \<Longrightarrow> same_inputs a c"
  by (simp add: same_inputs_def)

subsection \<open>The loop\<close>

lemma gen_loop_stop:
  "\<not> tries < 250 \<Longrightarrow>
     gen_loop lib separator case_mode alliteration avoid_duplicates nbl tries st = (Inr None, tries, st)"
  by (simp add: gen_loop.simps)

lemma gen_loop_raise:
  "tries < 250 \<Longrightarrow>
     attempt lib separator case_mode alliteration avoid_duplicates nbl st = (Inl e, st1) \<Longrightarrow>
     gen_loop lib separator case_mode alliteration avoid_duplicates nbl tries st = (Inl e, tries + 1, st1)"
  by (simp add: gen_loop.simps)

lemma gen_loop_return:
  "tries < 250 \<Longrightarrow>
     attempt lib separator case_mode alliteration avoid_duplicates nbl st = (Inr (Return res), st1) \<Longrightarrow>
     gen_loop lib separator case_mode alliteration avoid_duplicates nbl tries st = (Inr res, tries + 1, st1)"
  by (simp add: gen_loop.simps)

lemma gen_loop_retry:
  "tries < 250 \<Longrightarrow>
     attempt lib separator case_mode alliteration avoid_duplicates nbl st = (Inr Retry, st1) \<Longrightarrow>
     gen_loop lib separator case_mode alliteration avoid_duplicates nbl tries st =
       gen_loop lib separator case_mode alliteration avoid_duplicates nbl (tries + 1) st1"
  by (simp add: gen_loop.simps [of _ _ _ _ _ _ tries])

text \<open>
  What the loop returns is either None after the 250th pass, or what its last pass
  returned or raised; the passes run on the objects of the call, with the random source
  advanced.
\<close>

lemma gen_loop_result:
  "gen_loop lib separator case_mode alliteration avoid_duplicates nbl tries st = (res, tries', st') \<Longrightarrow>
   tries \<le> 250 \<Longrightarrow>
     same_inputs st st' \<and> tries \<le> tries' \<and> tries' \<le> 250 \<and>
     ((res = Inr None \<and> tries' = 250) \<or>
      (\<exists>s. same_inputs st s \<and> tries < tries' \<and>
           attempt lib separator case_mode alliteration avoid_duplicates nbl s =
             (case res of Inl e \<Rightarrow> Inl e | Inr r \<Rightarrow> Inr (Return r), st')))"
proof (induction lib separator case_mode alliteration avoid_duplicates nbl tries st
    rule: gen_loop.induct)
  case (1 lib separator case_mode alliteration avoid_duplicates nbl tries st)
  show ?case
  proof (cases "tries < 250")
    case False
    with "1.prems" show ?thesis by (simp add: gen_loop_stop same_inputs_refl)
  next
    case True
    obtain out st1
      where a: "attempt lib separator case_mode alliteration avoid_duplicates nbl st = (out, st1)"
      by (cases "attempt lib separator case_mode alliteration avoid_duplicates nbl st")
    note fr = attempt_frame [OF a]
    show ?thesis
    proof (cases out)
      case (Inl e)
      with a have a': "attempt lib separator case_mode alliteration avoid_duplicates nbl st = (Inl e, st1)"
        by simp
      from gen_loop_raise [OF True a'] "1.prems"(1)
      have "res = Inl e" "tries' = tries + 1" "st' = st1" by simp_all
      with a' fr True same_inputs_refl [of st] show ?thesis by auto
    next
      case (Inr oc)
      show ?thesis
      proof (cases oc)
        case (Return r)
        with a Inr
        have a': "attempt lib separator case_mode alliteration avoid_duplicates nbl st = (Inr (Return r), st1)"
          by simp
        from gen_loop_return [OF True a'] "1.prems"(1)
        have "res = Inr r" "tries' = tries + 1" "st' = st1" by simp_all
        with a' fr True same_inputs_refl [of st] show ?thesis by auto
      next
        case Retry
        with a Inr
        have a': "attempt lib separator case_mode alliteration avoid_duplicates nbl st = (Inr Retry, st1)"
          by simp
        from gen_loop_retry [OF True a'] "1.prems"(1)
        have g: "gen_loop lib separator case_mode alliteration avoid_duplicates nbl (tries + 1) st1 =
                   (res, tries', st')" by simp
        from True have le: "tries + 1 \<le> 250" by simp
        from "1.IH" [OF True a [symmetric] _ _ g le] Inr Retry
        have ih: "same_inputs st1 st' \<and> tries + 1 \<le> tries' \<and> tries' \<le> 250 \<and>
           ((res = Inr None \<and> tries' = 250) \<or>
            (\<exists>s. same_inputs st1 s \<and> tries + 1 < tries' \<and>
               attempt lib separator case_mode alliteration avoid_duplicates nbl s =
                 (case res of Inl e \<Rightarrow> Inl e | Inr r \<Rightarrow> Inr (Return r), st')))"
          by simp
        then have "same_inputs st st'" using fr same_inputs_trans by blast
        moreover from ih have "tries \<le> tries'" "tries' \<le> 250" by simp_all
        moreover from ih have "(res = Inr None \<and> tries' = 250) \<or>
            (\<exists>s. same_inputs st s \<and> tries < tries' \<and>
               attempt lib separator case_mode alliteration avoid_duplicates nbl s =
                 (case res of Inl e \<Rightarrow> Inl e | Inr r \<Rightarrow> Inr (Return r), st'))"
        proof (elim conjE disjE exE)
          assume "res = Inr None" "tries' = 250"
          then show ?thesis by simp
        next
          fix s
          assume "same_inputs st1 s" "tries + 1 < tries'"
            "attempt lib separator case_mode alliteration avoid_duplicates nbl s =
               (case res of Inl e \<Rightarrow> Inl e | Inr r \<Rightarrow> Inr (Return r), st')"
          moreover from this(1) fr have "same_inputs st s" using same_inputs_trans by blast
          ultimately show ?thesis by auto
        qed
        ultimately show ?thesis by simp
      qed
    qed
  qed
qed

lemma generate_result:
  assumes "generate_one_name lib adjectives nouns tier_weights separator case_mode alliteration
             avoid_duplicates used_names rng = (res, tries, st')"
  shows "obj_adjectives st' = adjectives \<and> obj_nouns st' = nouns \<and>
         obj_tier_weights st' = tier_weights \<and> obj_used_names st' = used_names \<and>
         tries \<le> 250 \<and>
         ((res = Inr None \<and> tries = 250) \<or>
          (\<exists>s. obj_adjectives s = adjectives \<and> obj_nouns s = nouns \<and>
               obj_tier_weights s = tier_weights \<and> obj_used_names s = used_names \<and> 0 < tries \<and>
               attempt lib separator case_mode alliteration avoid_duplicates
                 (index_by_letter lib Map.empty (enabled_nouns nouns tier_weights)) s =
                 (case res of Inl e \<Rightarrow> Inl e | Inr r \<Rightarrow> Inr (Return r), st')))"
proof -
  let ?st = "\<lparr>obj_adjectives = adjectives, obj_nouns = nouns, obj_tier_weights = tier_weights,
            obj_used_names = used_names, obj_rng = rng\<rparr>"
  from assms have "gen_loop lib separator case_mode alliteration avoid_duplicates
      (index_by_letter lib Map.empty (enabled_nouns nouns tier_weights)) 0 ?st = (res, tries, st')"
    by (simp add: generate_one_name_def Let_def)
  from gen_loop_result [OF this] show ?thesis
    by (auto simp: same_inputs_def)
qed


lemma attempt_no_raise:
  assumes d: "distinct (map fst (obj_tier_weights st))"
    and ne: "alliteration \<longrightarrow>
               (\<forall>(t, w)\<in>set (obj_tier_weights st). 0 < w \<longrightarrow> [] \<notin> set (dict_get (obj_adjectives st) t []))"
  shows "\<exists>oc st'. attempt lib separator case_mode alliteration avoid_duplicates nbl st = (Inr oc, st')"
proof (cases "available_tiers (obj_adjectives st) (obj_tier_weights st) = []")
  case True
  from pick_empty [OF True] show ?thesis by (simp add: attempt_def)
next
  case False
  from pick_total [OF d False] obtain adj_tier adj_raw r1
    where pa: "pick_word_from_tiers (obj_adjectives st) (obj_tier_weights st) (obj_rng st) =
                 (Inr (Some (adj_tier, adj_raw)), r1)" by blast
  note adj = pick_sound [OF pa]
  show ?thesis
  proof (cases alliteration)
    case True
    with ne adj have "adj_raw \<noteq> []" by auto
    then obtain c cs where a: "adj_raw = c # cs" by (cases adj_raw) simp_all
    show ?thesis
    proof (cases "dict_get nbl (py_lower lib [c]) [] = []")
      case True
      with pa a \<open>alliteration\<close> show ?thesis by (simp add: attempt_def)
    next
      case False
      from rng_choice_total [OF False] obtain x
        where "rng_choice (dict_get nbl (py_lower lib [c]) []) r1 = (Inr x, snd (rng_next r1))"
        by blast
      with pa a False \<open>alliteration\<close> show ?thesis
        by (cases x) (simp add: attempt_def)
    qed
  next
    case nal: False
    show ?thesis
    proof (cases "available_tiers (obj_nouns st) (obj_tier_weights st) = []")
      case True
      from pick_empty [OF True] pa nal show ?thesis by (simp add: attempt_def)
    next
      case False
      from pick_total [OF d False] obtain noun_tier noun_raw r2
        where "pick_word_from_tiers (obj_nouns st) (obj_tier_weights st) r1 =
                 (Inr (Some (noun_tier, noun_raw)), r2)" by blast
      with pa nal show ?thesis by (simp add: attempt_def)
    qed
  qed
qed

subsection \<open>The claims about the generator\<close>

text \<open>
  C2. When \<open>generate_one_name\<close> is called with the alliteration flag and returns a name,
  the name is the formatted pair of an adjective and a noun of the word lists whose first
  letters, taken from the raw words and put in lower case, are equal, and the tier of the
  noun has a positive weight.
\<close>

theorem generate_alliteration:
  assumes "generate_one_name lib adjectives nouns tier_weights separator case_mode True
             avoid_duplicates used_names rng = (Inr (Some (final_name, adj_tier, noun_tier)), tries, st')"
  shows "\<exists>adj_raw noun_raw.
           adj_raw \<in> set (dict_get adjectives adj_tier []) \<and>
           noun_raw \<in> set (dict_get nouns noun_tier []) \<and>
           adj_raw \<noteq> [] \<and> noun_raw \<noteq> [] \<and>
           py_lower lib [hd adj_raw] = py_lower lib [hd noun_raw] \<and>
           final_name = join_name (apply_case lib adj_raw case_mode) (apply_case lib noun_raw case_mode) separator \<and>
           (\<exists>w. (noun_tier, w) \<in> set tier_weights \<and> 0 < w)"
proof -
  let ?nbl = "index_by_letter lib Map.empty (enabled_nouns nouns tier_weights)"
  from generate_result [OF assms] obtain s
    where s: "obj_adjectives s = adjectives" "obj_nouns s = nouns" "obj_tier_weights s = tier_weights"
      and a: "attempt lib separator case_mode True avoid_duplicates ?nbl s =
                (Inr (Return (Some (final_name, adj_tier, noun_tier))), st')"
    by auto
  from attempt_sound [OF a] s obtain adj_raw noun_raw
    where adj: "adj_raw \<in> set (dict_get adjectives adj_tier [])" "adj_raw \<noteq> []"
      and cand: "(noun_tier, noun_raw) \<in> set (dict_get ?nbl (py_lower lib [hd adj_raw]) [])"
      and fn: "final_name = join_name (apply_case lib adj_raw case_mode) (apply_case lib noun_raw case_mode) separator"
    by auto
  from nouns_by_letter_sound [OF cand]
  have "(\<exists>w. (noun_tier, w) \<in> set tier_weights \<and> 0 < w)" "noun_raw \<in> set (dict_get nouns noun_tier [])"
    "noun_raw \<noteq> []" "py_lower lib [hd noun_raw] = py_lower lib [hd adj_raw]" by simp_all
  with adj fn show ?thesis by (intro exI [of _ adj_raw] exI [of _ noun_raw]) simp
qed

theorem generate_alliteration_witness:
  "fst (generate_one_name no_table [lit ''Common'' \<mapsto> [lit ''Swift'']] [lit ''Common'' \<mapsto> [[], lit ''spark'']]
          [(lit ''Common'', 5)] (lit ''Hyphen'') (lit ''Title Case'') True True {} (\<lambda>n. 0)) =
     Inr (Some (lit ''Swift-Spark'', lit ''Common'', lit ''Common'')) \<and>
   (\<exists>adj_raw noun_raw.
      adj_raw \<in> set (dict_get [lit ''Common'' \<mapsto> [lit ''Swift'']] (lit ''Common'') []) \<and>
      noun_raw \<in> set (dict_get [lit ''Common'' \<mapsto> [[], lit ''spark'']] (lit ''Common'') []) \<and>
      adj_raw \<noteq> [] \<and> noun_raw \<noteq> [] \<and>
      py_lower no_table [hd adj_raw] = py_lower no_table [hd noun_raw] \<and>
      lit ''Swift-Spark'' =
        join_name (apply_case no_table adj_raw (lit ''Title Case'')) (apply_case no_table noun_raw (lit ''Title Case'')) (lit ''Hyphen'') \<and>
      (\<exists>w. (lit ''Common'', w) \<in> set [(lit ''Common'', 5::int)] \<and> 0 < w))"
proof -
  define g where "g = generate_one_name no_table [lit ''Common'' \<mapsto> [lit ''Swift'']]
      [lit ''Common'' \<mapsto> [[], lit ''spark'']] [(lit ''Common'', 5)] (lit ''Hyphen'') (lit ''Title Case'') True True {}
      (\<lambda>n. 0)"
  have v: "fst g = Inr (Some (lit ''Swift-Spark'', lit ''Common'', lit ''Common''))"
    unfolding g_def by code_simp
  have "g = (fst g, fst (snd g), snd (snd g))" by simp
  with v have "g = (Inr (Some (lit ''Swift-Spark'', lit ''Common'', lit ''Common'')), fst (snd g), snd (snd g))"
    by simp
  from generate_alliteration [OF this [unfolded g_def]] v [unfolded g_def]
  show ?thesis by (intro conjI)
qed

text \<open>
  The same on words with an accent: for a table that puts the capital e with acute accent
  (201) in lower case (233), as the runtime's does, the adjective with the capital and the
  noun with the small letter alliterate, and the first pass returns their name.
\<close>

lemma generate_alliteration_accented:
  assumes "lib_lower lib [201] = [233]" and "lib_lower lib [233] = [233]"
  shows "fst (generate_one_name lib [lit ''Common'' \<mapsto> [201 # lit ''toile'']]
            [lit ''Common'' \<mapsto> [233 # lit ''tang'']] [(lit ''Common'', 5)]
            (lit ''Hyphen'') (lit ''Unchanged'') True False {} rng) =
         Inr (Some (201 # lit ''toile'' @ lit ''-'' @ 233 # lit ''tang'',
                    lit ''Common'', lit ''Common''))"
proof -
  have k1: "py_lower lib [201] = [233]" and k2: "py_lower lib [233] = [233]"
    using assms by (simp_all add: py_lower_def is_ascii_def)
  have nbl: "index_by_letter lib Map.empty
               (enabled_nouns [lit ''Common'' \<mapsto> [233 # lit ''tang'']] [(lit ''Common'', 5)]) =
             [[233] \<mapsto> [(lit ''Common'', 233 # lit ''tang'')]]"
    by (simp add: enabled_nouns_def dict_get_def k2)
  have p: "pick_word_from_tiers [lit ''Common'' \<mapsto> [201 # lit ''toile'']] [(lit ''Common'', 5)] rng =
             (Inr (Some (lit ''Common'', 201 # lit ''toile'')), \<lambda>n. rng (Suc (Suc n)))"
    by (simp add: pick_word_from_tiers_def available_tiers_def dict_get_def dict_getitem_def
        rng_choices_def rng_choice_def rng_next_def)
  let ?st = "\<lparr>obj_adjectives = [lit ''Common'' \<mapsto> [201 # lit ''toile'']],
     obj_nouns = [lit ''Common'' \<mapsto> [233 # lit ''tang'']],
     obj_tier_weights = [(lit ''Common'', 5)], obj_used_names = {}, obj_rng = rng\<rparr>"
  have "attempt lib (lit ''Hyphen'') (lit ''Unchanged'') True False
          [[233] \<mapsto> [(lit ''Common'', 233 # lit ''tang'')]] ?st =
        (Inr (Return (Some (201 # lit ''toile'' @ lit ''-'' @ 233 # lit ''tang'',
                            lit ''Common'', lit ''Common''))),
         ?st\<lparr>obj_rng := \<lambda>n. rng (Suc (Suc (Suc n)))\<rparr>)"
    by (simp add: attempt_def p [simplified] k1 dict_get_def rng_choice_def rng_next_def
        finish_name_def apply_case_def join_name_def)
  from gen_loop_return [OF _ this, of 0] show ?thesis
    by (simp add: generate_one_name_def Let_def nbl [simplified])
qed

text \<open>
  C9. A call of \<open>generate_one_name\<close> leaves the adjectives, the nouns, the tier weights and
  \<open>used_names\<close> as they were, whether it returns a name, returns None or raises; in
  particular the name it returns is not added to \<open>used_names\<close>.
\<close>

theorem generate_reads_only:
  assumes "generate_one_name lib adjectives nouns tier_weights separator case_mode alliteration
             avoid_duplicates used_names rng = (res, tries, st')"
  shows "obj_adjectives st' = adjectives \<and> obj_nouns st' = nouns \<and>
         obj_tier_weights st' = tier_weights \<and> obj_used_names st' = used_names"
  using generate_result [OF assms] by simp

theorem generate_reads_only_witness:
  "fst (generate_one_name no_table [lit ''Common'' \<mapsto> [lit ''Swift'']] [lit ''Common'' \<mapsto> [lit ''Fang'']]
          [(lit ''Common'', 5)] (lit ''Space'') (lit ''Title Case'') False True {lit ''iron claw''} (\<lambda>n. 0)) =
     Inr (Some (lit ''Swift Fang'', lit ''Common'', lit ''Common'')) \<and>
   obj_used_names (snd (snd (generate_one_name no_table [lit ''Common'' \<mapsto> [lit ''Swift'']]
          [lit ''Common'' \<mapsto> [lit ''Fang'']] [(lit ''Common'', 5)] (lit ''Space'') (lit ''Title Case'') False True
          {lit ''iron claw''} (\<lambda>n. 0)))) = {lit ''iron claw''} \<and>
   obj_tier_weights (snd (snd (generate_one_name no_table [lit ''Common'' \<mapsto> [lit ''Swift'']]
          [lit ''Common'' \<mapsto> [lit ''Fang'']] [(lit ''Common'', 5)] (lit ''Space'') (lit ''Title Case'') False True
          {lit ''iron claw''} (\<lambda>n. 0)))) = [(lit ''Common'', 5)]"
proof -
  define g where "g = generate_one_name no_table [lit ''Common'' \<mapsto> [lit ''Swift'']]
      [lit ''Common'' \<mapsto> [lit ''Fang'']] [(lit ''Common'', 5)] (lit ''Space'') (lit ''Title Case'') False True
      {lit ''iron claw''} (\<lambda>n. 0)"
  have v: "fst g = Inr (Some (lit ''Swift Fang'', lit ''Common'', lit ''Common''))"
    unfolding g_def by code_simp
  have "g = (fst g, fst (snd g), snd (snd g))" by simp
  from generate_reads_only [OF this [unfolded g_def]] v [unfolded g_def]
  show ?thesis unfolding g_def by simp
qed

text \<open>
  C4. When no tier of positive weight has an adjective, \<open>generate_one_name\<close> returns None
  in its first pass, without a draw and without raising. Without alliteration the same
  holds when no tier of positive weight has a noun: None in the first pass.
\<close>

theorem generate_no_eligible_words:
  "((\<forall>(t, w)\<in>set tier_weights. 0 < w \<longrightarrow> dict_get adjectives t [] = []) \<longrightarrow>
      generate_one_name lib adjectives nouns tier_weights separator case_mode alliteration
        avoid_duplicates used_names rng =
      (Inr None, 1, \<lparr>obj_adjectives = adjectives, obj_nouns = nouns,
         obj_tier_weights = tier_weights, obj_used_names = used_names, obj_rng = rng\<rparr>)) \<and>
   (distinct (map fst tier_weights) \<and>
    (\<forall>(t, w)\<in>set tier_weights. 0 < w \<longrightarrow> dict_get nouns t [] = []) \<longrightarrow>
      (\<exists>rng'. generate_one_name lib adjectives nouns tier_weights separator case_mode False
        avoid_duplicates used_names rng =
      (Inr None, 1, \<lparr>obj_adjectives = adjectives, obj_nouns = nouns,
         obj_tier_weights = tier_weights, obj_used_names = used_names, obj_rng = rng'\<rparr>)))"
proof (intro conjI impI)
  let ?st = "\<lparr>obj_adjectives = adjectives, obj_nouns = nouns, obj_tier_weights = tier_weights,
            obj_used_names = used_names, obj_rng = rng\<rparr>"
  let ?nbl = "index_by_letter lib Map.empty (enabled_nouns nouns tier_weights)"
  {
    assume "\<forall>(t, w)\<in>set tier_weights. 0 < w \<longrightarrow> dict_get adjectives t [] = []"
    then have "available_tiers adjectives tier_weights = []"
      unfolding available_tiers_Nil by auto
    from pick_empty [OF this]
    have "attempt lib separator case_mode alliteration avoid_duplicates ?nbl ?st = (Inr (Return None), ?st)"
      by (simp add: attempt_def)
    from gen_loop_return [OF _ this, of 0]
    show "generate_one_name lib adjectives nouns tier_weights separator case_mode alliteration
        avoid_duplicates used_names rng = (Inr None, 1, ?st)"
      by (simp add: generate_one_name_def Let_def)
  }
  {
    assume h: "distinct (map fst tier_weights) \<and>
      (\<forall>(t, w)\<in>set tier_weights. 0 < w \<longrightarrow> dict_get nouns t [] = [])"
    then have nn: "available_tiers nouns tier_weights = []"
      unfolding available_tiers_Nil by auto
    have "\<exists>rng'. attempt lib separator case_mode False avoid_duplicates ?nbl ?st =
            (Inr (Return None), ?st\<lparr>obj_rng := rng'\<rparr>)"
    proof (cases "available_tiers adjectives tier_weights = []")
      case True
      from pick_empty [OF True] show ?thesis by (simp add: attempt_def)
    next
      case False
      from h pick_total [OF _ False] obtain adj_tier adj_raw r1
        where "pick_word_from_tiers adjectives tier_weights rng = (Inr (Some (adj_tier, adj_raw)), r1)"
        by blast
      with pick_empty [OF nn] show ?thesis by (simp add: attempt_def)
    qed
    then obtain rng' where "attempt lib separator case_mode False avoid_duplicates ?nbl ?st =
            (Inr (Return None), ?st\<lparr>obj_rng := rng'\<rparr>)" by blast
    from gen_loop_return [OF _ this, of 0]
    show "\<exists>rng'. generate_one_name lib adjectives nouns tier_weights separator case_mode False
        avoid_duplicates used_names rng =
      (Inr None, 1, \<lparr>obj_adjectives = adjectives, obj_nouns = nouns,
         obj_tier_weights = tier_weights, obj_used_names = used_names, obj_rng = rng'\<rparr>)"
      by (simp add: generate_one_name_def Let_def)
  }
qed

theorem generate_no_eligible_words_witness:
  "dict_get [lit ''Common'' \<mapsto> [], lit ''Rare'' \<mapsto> [lit ''Grim'']] (lit ''Common'') [] = [] \<and>
   generate_one_name no_table [lit ''Common'' \<mapsto> [], lit ''Rare'' \<mapsto> [lit ''Grim'']] [lit ''Common'' \<mapsto> [lit ''Fang'']]
     [(lit ''Common'', 5), (lit ''Rare'', 0)] (lit ''Space'') (lit ''lower'') True False {} (\<lambda>n. n) =
     (Inr None, 1, \<lparr>obj_adjectives = [lit ''Common'' \<mapsto> [], lit ''Rare'' \<mapsto> [lit ''Grim'']],
        obj_nouns = [lit ''Common'' \<mapsto> [lit ''Fang'']],
        obj_tier_weights = [(lit ''Common'', 5), (lit ''Rare'', 0)], obj_used_names = {},
        obj_rng = \<lambda>n. n\<rparr>) \<and>
   distinct (map fst [(lit ''Common'', 5::int), (lit ''Rare'', 0)]) \<and>
   dict_get [lit ''Rare'' \<mapsto> [lit ''Fang'']] (lit ''Common'') [] = [] \<and>
   (\<exists>rng'. generate_one_name no_table [lit ''Common'' \<mapsto> [lit ''Swift'']] [lit ''Rare'' \<mapsto> [lit ''Fang'']]
     [(lit ''Common'', 5), (lit ''Rare'', 0)] (lit ''Space'') (lit ''lower'') False False {} (\<lambda>n. n) =
     (Inr None, 1, \<lparr>obj_adjectives = [lit ''Common'' \<mapsto> [lit ''Swift'']],
        obj_nouns = [lit ''Rare'' \<mapsto> [lit ''Fang'']],
        obj_tier_weights = [(lit ''Common'', 5), (lit ''Rare'', 0)], obj_used_names = {},
        obj_rng = rng'\<rparr>))"
proof -
  have h1: "\<forall>(t, w)\<in>set [(lit ''Common'', 5::int), (lit ''Rare'', 0)]. 0 < w \<longrightarrow>
      dict_get [lit ''Common'' \<mapsto> [], lit ''Rare'' \<mapsto> [lit ''Grim'']] t [] = []"
    by (simp add: dict_get_def)
  have h2: "distinct (map fst [(lit ''Common'', 5::int), (lit ''Rare'', 0)])" by simp
  have h3: "\<forall>(t, w)\<in>set [(lit ''Common'', 5::int), (lit ''Rare'', 0)]. 0 < w \<longrightarrow>
      dict_get [lit ''Rare'' \<mapsto> [lit ''Fang'']] t [] = []"
    by (simp add: dict_get_def)
  from generate_no_eligible_words [where lib = no_table
      and tier_weights = "[(lit ''Common'', 5), (lit ''Rare'', 0)]"
      and adjectives = "[lit ''Common'' \<mapsto> [], lit ''Rare'' \<mapsto> [lit ''Grim'']]"
      and nouns = "[lit ''Common'' \<mapsto> [lit ''Fang'']]"
      and separator = "lit ''Space''" and case_mode = "lit ''lower''" and alliteration = True
      and avoid_duplicates = False and used_names = "{}" and rng = "\<lambda>n. n",
      THEN conjunct1, THEN mp, OF h1]
  have c1: "generate_one_name no_table [lit ''Common'' \<mapsto> [], lit ''Rare'' \<mapsto> [lit ''Grim'']] [lit ''Common'' \<mapsto> [lit ''Fang'']]
     [(lit ''Common'', 5), (lit ''Rare'', 0)] (lit ''Space'') (lit ''lower'') True False {} (\<lambda>n. n) =
     (Inr None, 1, \<lparr>obj_adjectives = [lit ''Common'' \<mapsto> [], lit ''Rare'' \<mapsto> [lit ''Grim'']],
        obj_nouns = [lit ''Common'' \<mapsto> [lit ''Fang'']],
        obj_tier_weights = [(lit ''Common'', 5), (lit ''Rare'', 0)], obj_used_names = {},
        obj_rng = \<lambda>n. n\<rparr>)" .
  from generate_no_eligible_words [where lib = no_table
      and tier_weights = "[(lit ''Common'', 5), (lit ''Rare'', 0)]"
      and adjectives = "[lit ''Common'' \<mapsto> [lit ''Swift'']]"
      and nouns = "[lit ''Rare'' \<mapsto> [lit ''Fang'']]"
      and separator = "lit ''Space''" and case_mode = "lit ''lower''" and alliteration = False
      and avoid_duplicates = False and used_names = "{}" and rng = "\<lambda>n. n",
      THEN conjunct2, THEN mp, OF conjI [OF h2 h3]]
  have c2: "\<exists>rng'. generate_one_name no_table [lit ''Common'' \<mapsto> [lit ''Swift'']] [lit ''Rare'' \<mapsto> [lit ''Fang'']]
     [(lit ''Common'', 5), (lit ''Rare'', 0)] (lit ''Space'') (lit ''lower'') False False {} (\<lambda>n. n) =
     (Inr None, 1, \<lparr>obj_adjectives = [lit ''Common'' \<mapsto> [lit ''Swift'']],
        obj_nouns = [lit ''Rare'' \<mapsto> [lit ''Fang'']],
        obj_tier_weights = [(lit ''Common'', 5), (lit ''Rare'', 0)], obj_used_names = {},
        obj_rng = rng'\<rparr>)" .
  have e1: "dict_get [lit ''Common'' \<mapsto> [], lit ''Rare'' \<mapsto> [lit ''Grim'']] (lit ''Common'') [] = []"
    by (simp add: dict_get_def)
  have e3: "dict_get [lit ''Rare'' \<mapsto> [lit ''Fang'']] (lit ''Common'') [] = []"
    by (simp add: dict_get_def)
  from e1 c1 h2 e3 c2 show ?thesis by (intro conjI)
qed

text \<open>
  C10. In alliteration mode the first character of the picked adjective is read. When
  every adjective of every tier of positive weight is a non-empty string, that read is in
  bounds and \<open>generate_one_name\<close> does not raise, whatever the nouns are: a noun that is
  the empty string is never put in the first-letter index.
\<close>

theorem generate_never_raises:
  assumes "distinct (map fst tier_weights)"
    and "\<forall>(t, w)\<in>set tier_weights. 0 < w \<longrightarrow> [] \<notin> set (dict_get adjectives t [])"
  shows "(\<exists>res tries st'. generate_one_name lib adjectives nouns tier_weights separator case_mode True
             avoid_duplicates used_names rng = (Inr res, tries, st')) \<and>
         (\<forall>k t n. (t, n) \<in> set (dict_get (index_by_letter lib Map.empty
                      (enabled_nouns nouns tier_weights)) k []) \<longrightarrow> n \<noteq> [])"
proof
  let ?nbl = "index_by_letter lib Map.empty (enabled_nouns nouns tier_weights)"
  obtain res tries st' where g: "generate_one_name lib adjectives nouns tier_weights separator
      case_mode True avoid_duplicates used_names rng = (res, tries, st')"
    by (cases "generate_one_name lib adjectives nouns tier_weights separator
      case_mode True avoid_duplicates used_names rng") auto
  have "\<exists>r. res = Inr r"
  proof (cases res)
    case (Inr r)
    then show ?thesis by simp
  next
    case (Inl e)
    with generate_result [OF g] obtain s
      where s: "obj_adjectives s = adjectives" "obj_tier_weights s = tier_weights"
        and a: "attempt lib separator case_mode True avoid_duplicates ?nbl s = (Inl e, st')"
      by auto
    from assms s attempt_no_raise [where st = s and alliteration = True and lib = lib
        and separator = separator and case_mode = case_mode
        and avoid_duplicates = avoid_duplicates and nbl = ?nbl]
    obtain oc st2 where "attempt lib separator case_mode True avoid_duplicates ?nbl s = (Inr oc, st2)"
      by auto
    with a show ?thesis by simp
  qed
  with g show "\<exists>res tries st'. generate_one_name lib adjectives nouns tier_weights separator case_mode
      True avoid_duplicates used_names rng = (Inr res, tries, st')" by auto
next
  show "\<forall>k t n. (t, n) \<in> set (dict_get (index_by_letter lib Map.empty
          (enabled_nouns nouns tier_weights)) k []) \<longrightarrow> n \<noteq> []"
    using nouns_by_letter_sound by blast
qed

theorem generate_never_raises_witness:
  "distinct (map fst [(lit ''Common'', 5::int)]) \<and>
   [] \<notin> set (dict_get [lit ''Common'' \<mapsto> [lit ''Swift'']] (lit ''Common'') []) \<and>
   [] \<in> set (dict_get [lit ''Common'' \<mapsto> [[], lit ''spark'']] (lit ''Common'') []) \<and>
   (\<exists>res tries st'. generate_one_name no_table [lit ''Common'' \<mapsto> [lit ''Swift'']]
      [lit ''Common'' \<mapsto> [[], lit ''spark'']] [(lit ''Common'', 5)] (lit ''Hyphen'') (lit ''Title Case'') True True {}
      (\<lambda>n. n) = (Inr res, tries, st'))"
proof -
  have h1: "distinct (map fst [(lit ''Common'', 5::int)])" by simp
  have h2: "\<forall>(t, w)\<in>set [(lit ''Common'', 5::int)]. 0 < w \<longrightarrow>
      [] \<notin> set (dict_get [lit ''Common'' \<mapsto> [lit ''Swift'']] t [])"
    by (simp add: dict_get_def)
  have h3: "[] \<in> set (dict_get [lit ''Common'' \<mapsto> [[], lit ''spark'']] (lit ''Common'') [])"
    by (simp add: dict_get_def)
  from generate_never_raises [OF h1 h2, where lib = no_table
      and nouns = "[lit ''Common'' \<mapsto> [[], lit ''spark'']]"
      and separator = "lit ''Hyphen''" and case_mode = "lit ''Title Case''"
      and avoid_duplicates = True and used_names = "{}" and rng = "\<lambda>n. n"]
  have "\<exists>res tries st'. generate_one_name no_table [lit ''Common'' \<mapsto> [lit ''Swift'']]
      [lit ''Common'' \<mapsto> [[], lit ''spark'']] [(lit ''Common'', 5)] (lit ''Hyphen'') (lit ''Title Case'') True True {}
      (\<lambda>n. n) = (Inr res, tries, st')"
    by (elim conjE)
  moreover have "[] \<notin> set (dict_get [lit ''Common'' \<mapsto> [lit ''Swift'']] (lit ''Common'') [])"
    by (simp add: dict_get_def)
  ultimately show ?thesis using h1 h3 by (intro conjI)
qed

subsection \<open>The retry bound\<close>

text \<open>
  Every call ends after at most 250 passes, and a call whose passes all end in
  \<open>continue\<close> returns None after the 250th.
\<close>

lemma generate_tries_bound:
  assumes "generate_one_name lib adjectives nouns tier_weights separator case_mode alliteration
             avoid_duplicates used_names rng = (res, tries, st')"
  shows "0 < tries \<and> tries \<le> 250"
  using generate_result [OF assms] by auto

lemma generate_all_retry:
  assumes "\<forall>s. obj_adjectives s = adjectives \<and> obj_nouns s = nouns \<and>
               obj_tier_weights s = tier_weights \<and> obj_used_names s = used_names \<longrightarrow>
             fst (attempt lib separator case_mode alliteration avoid_duplicates
                   (index_by_letter lib Map.empty (enabled_nouns nouns tier_weights)) s) = Inr Retry"
  shows "\<exists>st'. generate_one_name lib adjectives nouns tier_weights separator case_mode alliteration
             avoid_duplicates used_names rng = (Inr None, 250, st')"
proof -
  obtain res tries st' where g: "generate_one_name lib adjectives nouns tier_weights separator
      case_mode alliteration avoid_duplicates used_names rng = (res, tries, st')"
    by (cases "generate_one_name lib adjectives nouns tier_weights separator
      case_mode alliteration avoid_duplicates used_names rng") auto
  from generate_result [OF g] assms have "res = Inr None \<and> tries = 250"
    by (cases res) fastforce+
  with g show ?thesis by simp
qed

lemma attempt_all_names_used:
  assumes "all_names_used lib (obj_adjectives st) (obj_nouns st) (obj_tier_weights st)
             separator case_mode (obj_used_names st)"
  shows "attempt lib separator case_mode alliteration True
           (index_by_letter lib Map.empty (enabled_nouns (obj_nouns st) (obj_tier_weights st))) st \<noteq>
         (Inr (Return (Some x)), st')"
proof
  let ?nbl = "index_by_letter lib Map.empty (enabled_nouns (obj_nouns st) (obj_tier_weights st))"
  assume a: "attempt lib separator case_mode alliteration True ?nbl st = (Inr (Return (Some x)), st')"
  obtain final_name adj_tier noun_tier where x: "x = (final_name, adj_tier, noun_tier)"
    by (cases x)
  from attempt_sound [OF a [unfolded x]] obtain adj_raw noun_raw wa
    where adj: "(adj_tier, wa) \<in> set (obj_tier_weights st)" "0 < wa"
        "adj_raw \<in> set (dict_get (obj_adjectives st) adj_tier [])"
      and noun: "if alliteration
            then adj_raw \<noteq> [] \<and> (noun_tier, noun_raw) \<in> set (dict_get ?nbl (py_lower lib [hd adj_raw]) [])
            else (\<exists>w. (noun_tier, w) \<in> set (obj_tier_weights st) \<and> 0 < w) \<and>
                 noun_raw \<in> set (dict_get (obj_nouns st) noun_tier [])"
      and fn: "final_name = join_name (apply_case lib adj_raw case_mode) (apply_case lib noun_raw case_mode) separator"
      and fresh: "py_lower lib final_name \<notin> obj_used_names st"
    by auto
  have "\<exists>wn. (noun_tier, wn) \<in> set (obj_tier_weights st) \<and> 0 < wn \<and>
          noun_raw \<in> set (dict_get (obj_nouns st) noun_tier [])"
  proof (cases alliteration)
    case True
    with noun have "(noun_tier, noun_raw) \<in> set (dict_get ?nbl (py_lower lib [hd adj_raw]) [])" by simp
    from nouns_by_letter_sound [OF this] show ?thesis by auto
  next
    case False
    with noun show ?thesis by auto
  qed
  then obtain wn where "(noun_tier, wn) \<in> set (obj_tier_weights st)" "0 < wn"
    "noun_raw \<in> set (dict_get (obj_nouns st) noun_tier [])" by blast
  with assms adj have "py_lower lib (join_name (apply_case lib adj_raw case_mode)
      (apply_case lib noun_raw case_mode) separator) \<in> obj_used_names st"
    unfolding all_names_used_def by fast
  with fn fresh show False by simp
qed

text \<open>
  With \<open>avoid_duplicates\<close> set and every name of the enabled pools in \<open>used_names\<close>, no
  call returns a name; and it returns None, within the bound, when alliteration is off
  or no enabled adjective is the empty string.
\<close>

lemma generate_all_names_used:
  assumes used: "all_names_used lib adjectives nouns tier_weights separator case_mode used_names"
    and g: "generate_one_name lib adjectives nouns tier_weights separator case_mode alliteration
             True used_names rng = (res, tries, st')"
  shows "res \<noteq> Inr (Some x)"
    and "distinct (map fst tier_weights) \<Longrightarrow>
         alliteration \<longrightarrow> (\<forall>(t, w)\<in>set tier_weights. 0 < w \<longrightarrow> [] \<notin> set (dict_get adjectives t [])) \<Longrightarrow>
         res = Inr None \<and> tries \<le> 250"
proof -
  let ?nbl = "index_by_letter lib Map.empty (enabled_nouns nouns tier_weights)"
  show no_name: "res \<noteq> Inr (Some x)" for x
  proof
    assume "res = Inr (Some x)"
    with generate_result [OF g] obtain s
      where s: "obj_adjectives s = adjectives" "obj_nouns s = nouns"
        "obj_tier_weights s = tier_weights" "obj_used_names s = used_names"
        and a: "attempt lib separator case_mode alliteration True ?nbl s = (Inr (Return (Some x)), st')"
      by auto
    from used s attempt_all_names_used [of lib s separator case_mode alliteration x st'] a
    show False by simp
  qed
  assume d: "distinct (map fst tier_weights)"
    and ne: "alliteration \<longrightarrow> (\<forall>(t, w)\<in>set tier_weights. 0 < w \<longrightarrow> [] \<notin> set (dict_get adjectives t []))"
  have "\<exists>r. res = Inr r"
  proof (cases res)
    case (Inr r)
    then show ?thesis by simp
  next
    case (Inl e)
    with generate_result [OF g] obtain s
      where s: "obj_adjectives s = adjectives" "obj_tier_weights s = tier_weights"
        and a: "attempt lib separator case_mode alliteration True ?nbl s = (Inl e, st')"
      by auto
    from d ne s attempt_no_raise [where st = s and alliteration = alliteration and lib = lib
        and separator = separator and case_mode = case_mode
        and avoid_duplicates = True and nbl = ?nbl]
    obtain oc st2 where "attempt lib separator case_mode alliteration True ?nbl s = (Inr oc, st2)"
      by auto
    with a show ?thesis by simp
  qed
  then obtain r where r: "res = Inr r" by blast
  with no_name have "r = None" by (cases r) auto
  with r generate_result [OF g] show "res = Inr None \<and> tries \<le> 250" by simp
qed

text \<open>
  C3. The retry loop is bounded as the claim says, but the call does not always return
  None when every name is used: with alliteration on and the empty string among the
  enabled adjectives, reading its first character raises IndexError in the first pass.
  Here the only name the pools can form is in \<open>used_names\<close>.
\<close>

theorem generate_all_names_used_raises:
  "py_lower lib (join_name (apply_case lib [] (lit ''Title Case'')) (apply_case lib (lit ''Fang'') (lit ''Title Case'')) (lit ''Space''))
     \<in> {lit '' fang''} \<and>
   generate_one_name lib [lit ''Common'' \<mapsto> [[]]] [lit ''Common'' \<mapsto> [lit ''Fang'']] [(lit ''Common'', 1)]
     (lit ''Space'') (lit ''Title Case'') True True {lit '' fang''} rng =
   (Inl IndexError, 1,
    \<lparr>obj_adjectives = [lit ''Common'' \<mapsto> [[]]], obj_nouns = [lit ''Common'' \<mapsto> [lit ''Fang'']],
     obj_tier_weights = [(lit ''Common'', 1)], obj_used_names = {lit '' fang''},
     obj_rng = \<lambda>n. rng (Suc (Suc n))\<rparr>)"
proof
  show "py_lower lib (join_name (apply_case lib [] (lit ''Title Case'')) (apply_case lib (lit ''Fang'') (lit ''Title Case''))
      (lit ''Space'')) \<in> {lit '' fang''}"
    by code_simp
next
  let ?st = "\<lparr>obj_adjectives = [lit ''Common'' \<mapsto> [[]]], obj_nouns = [lit ''Common'' \<mapsto> [lit ''Fang'']],
     obj_tier_weights = [(lit ''Common'', 1)], obj_used_names = {lit '' fang''}, obj_rng = rng\<rparr>"
  have p: "pick_word_from_tiers [lit ''Common'' \<mapsto> [[]]] [(lit ''Common'', 1)] rng =
             (Inr (Some (lit ''Common'', [])), \<lambda>n. rng (Suc (Suc n)))"
    by (simp add: pick_word_from_tiers_def available_tiers_def dict_get_def dict_getitem_def
        rng_choices_def rng_choice_def rng_next_def)
  have "attempt lib (lit ''Space'') (lit ''Title Case'') True True
          (index_by_letter lib Map.empty (enabled_nouns [lit ''Common'' \<mapsto> [lit ''Fang'']] [(lit ''Common'', 1)])) ?st =
        (Inl IndexError, ?st\<lparr>obj_rng := \<lambda>n. rng (Suc (Suc n))\<rparr>)"
    by (simp add: attempt_def p [simplified])
  from gen_loop_raise [OF _ this, of 0]
  show "generate_one_name lib [lit ''Common'' \<mapsto> [[]]] [lit ''Common'' \<mapsto> [lit ''Fang'']] [(lit ''Common'', 1)]
     (lit ''Space'') (lit ''Title Case'') True True {lit '' fang''} rng =
   (Inl IndexError, 1,
    \<lparr>obj_adjectives = [lit ''Common'' \<mapsto> [[]]], obj_nouns = [lit ''Common'' \<mapsto> [lit ''Fang'']],
     obj_tier_weights = [(lit ''Common'', 1)], obj_used_names = {lit '' fang''},
     obj_rng = \<lambda>n. rng (Suc (Suc n))\<rparr>)"
    by (simp add: generate_one_name_def Let_def)
qed

end
